theory Spec2Isabelle
  imports Complex_Main
begin

section \<open>Errors\<close>

text \<open>
  The exceptions that \<^verbatim>\<open>compute_mrd.py\<close> and the library calls it makes can raise.
  \<open>LookupError\<close> is Python's common base class of \<open>KeyError\<close> and \<open>IndexError\<close>
  (a failed subscription of a table), \<open>ValueError\<close> is what numpy raises when an
  operand cannot be broadcast, \<open>AssertionError\<close> carries the message template and
  the number formatted into it. \<open>ConfigurationError\<close> is raised by no code under
  \<^verbatim>\<open>src/\<close>; it is the error that the specification gives the partitioner.
\<close>

datatype error =
    StopIteration
  | LookupError
  | ValueError
  | IndexError
  | ZeroDivisionError
  | AttributeError
  | AssertionError string nat
  | ConfigurationError

section \<open>Dense arrays\<close>

text \<open>
  A numpy array: its shape and its elements in row-major (C) order. The elements are
  real numbers: arithmetic is exact, the rounding of IEEE doubles is not modelled.
\<close>

record ndarray =
  shape :: "nat list"
  data :: "real list"

definition wf_array :: "ndarray \<Rightarrow> bool" where
  "wf_array a = (length (data a) = prod_list (shape a))"

text \<open>\<^verbatim>\<open>numpy.zeros(shape)\<close>\<close>

definition zeros :: "nat list \<Rightarrow> ndarray" where
  "zeros s = \<lparr>shape = s, data = replicate (prod_list s) 0\<rparr>"

text \<open>\<^verbatim>\<open>w * value\<close> for a scalar \<open>w\<close>\<close>

definition smul :: "real \<Rightarrow> ndarray \<Rightarrow> ndarray" where
  "smul w a = \<lparr>shape = shape a, data = map ((*) w) (data a)\<rparr>"

text \<open>
  numpy's broadcasting rule for an in-place operation \<^verbatim>\<open>out += x\<close>: the shapes are
  aligned at their last axis; \<open>x\<close> may have fewer axes than \<open>out\<close>, and each axis of
  \<open>x\<close> has either the length of the axis of \<open>out\<close> or length 1. (\<open>bc_ok\<close> reads the
  shapes from the last axis.)
\<close>

fun bc_ok :: "nat list \<Rightarrow> nat list \<Rightarrow> bool" where
  "bc_ok [] os = True"
| "bc_ok (x # xs) [] = False"
| "bc_ok (x # xs) (d # os) = ((x = d \<or> x = 1) \<and> bc_ok xs os)"

definition broadcastable :: "nat list \<Rightarrow> nat list \<Rightarrow> bool" where
  "broadcastable xs os = bc_ok (rev xs) (rev os)"

text \<open>\<open>chunks k n d\<close>: the first \<open>k\<close> consecutive blocks of length \<open>n\<close> of \<open>d\<close>.\<close>

fun chunks :: "nat \<Rightarrow> nat \<Rightarrow> 'a list \<Rightarrow> 'a list list" where
  "chunks 0 n d = []"
| "chunks (Suc k) n d = take n d # chunks k n (drop n d)"

text \<open>
  The elements of an array of shape \<open>ss\<close> repeated along its axes of length 1 to fill
  the shape \<open>ts\<close> (both shapes with the same number of axes).
\<close>

fun bcast :: "nat list \<Rightarrow> nat list \<Rightarrow> 'a list \<Rightarrow> 'a list" where
  "bcast (s # ss) (t # ts) d =
     (if s = t then concat (map (bcast ss ts) (chunks s (prod_list ss) d))
      else concat (replicate t (bcast ss ts d)))"
| "bcast ss ts d = d"

definition broadcast_to :: "ndarray \<Rightarrow> nat list \<Rightarrow> real list" where
  "broadcast_to x os =
     bcast (replicate (length os - length (shape x)) 1 @ shape x) os (data x)"

text \<open>\<^verbatim>\<open>out += x\<close>: \<open>out\<close> keeps its shape; numpy raises when \<open>x\<close> does not broadcast to it.\<close>

definition iadd :: "ndarray \<Rightarrow> ndarray \<Rightarrow> error + ndarray" where
  "iadd out x =
     (if broadcastable (shape x) (shape out)
      then Inr \<lparr>shape = shape out,
                data = map2 (+) (data out) (broadcast_to x (shape out))\<rparr>
      else Inl ValueError)"

text \<open>
  \<^verbatim>\<open>mrd[:, :, :, i]\<close>: the array needs four axes at least and \<open>i\<close> must lie inside the
  fourth one; the fourth axis disappears from the result.
\<close>

definition index_axis3 :: "ndarray \<Rightarrow> nat \<Rightarrow> error + ndarray" where
  "index_axis3 a i =
     (case shape a of
        d0 # d1 # d2 # G # inner \<Rightarrow>
          if i < G
          then Inr \<lparr>shape = d0 # d1 # d2 # inner,
                    data = concat (map (\<lambda>ch. take (prod_list inner) (drop (i * prod_list inner) ch))
                                       (chunks (d0 * d1 * d2) (G * prod_list inner) (data a)))\<rparr>
          else Inl IndexError
      | _ \<Rightarrow> Inl IndexError)"

section \<open>Dictionaries\<close>

text \<open>
  A Python dict keeps its keys in insertion order: an association list with distinct
  keys. \<open>acc\<close> maps a sub-model index \<open>g\<close> to an array. Assigning to a key that is
  present replaces its value in place, a new key goes to the end.
\<close>

type_synonym acc = "(nat \<times> ndarray) list"

fun dict_set :: "(nat \<times> 'v) list \<Rightarrow> nat \<Rightarrow> 'v \<Rightarrow> (nat \<times> 'v) list" where
  "dict_set [] k v = [(k, v)]"
| "dict_set ((k', v') # d) k v =
     (if k' = k then (k, v) # d else (k', v') # dict_set d k v)"

section \<open>The unit computer\<close>

text \<open>The model binding of a group; only its list of sub-model indices is read here.\<close>

record cmaker =
  gidx :: "nat list"

text \<open>\<^verbatim>\<open>class Input\<close>: the constructor sets \<open>weight\<close> to the number of contexts.\<close>

record 'c Input =
  ctx :: "'c list"
  cmaker :: cmaker
  N :: nat
  weight :: nat

definition new_Input :: "'c list \<Rightarrow> cmaker \<Rightarrow> nat \<Rightarrow> 'c Input" where
  "new_Input c cm n = \<lparr>ctx = c, cmaker = cm, N = n, weight = length c\<rparr>"

text \<open>
  \<^verbatim>\<open>{g: mrd[:, :, :, i] for i, g in enumerate(inp.cmaker.gidx)}\<close>, from position \<open>i\<close> on.
\<close>

fun fill_dict :: "ndarray \<Rightarrow> nat \<Rightarrow> nat list \<Rightarrow> acc \<Rightarrow> error + acc" where
  "fill_dict mrd i [] d = Inr d"
| "fill_dict mrd i (g # gs) d =
     (case index_axis3 mrd i of
        Inl e \<Rightarrow> Inl e
      | Inr v \<Rightarrow> fill_dict mrd (Suc i) gs (dict_set d g v))"

text \<open>
  \<^verbatim>\<open>compute_mrd\<close>. The numeric kernel \<^verbatim>\<open>calc_mean_rate_dist\<close> belongs to hazardlib and
  is a parameter: any function from the unit's data to a 4-D array, or an error.
\<close>

definition compute_mrd ::
  "('c list \<Rightarrow> nat \<Rightarrow> cmaker \<Rightarrow> 'x \<Rightarrow> string \<Rightarrow> string \<Rightarrow> real list \<Rightarrow> real list \<Rightarrow> error + ndarray)
   \<Rightarrow> 'c Input \<Rightarrow> 'x \<Rightarrow> string \<Rightarrow> string \<Rightarrow> real list \<Rightarrow> real list \<Rightarrow> 'm \<Rightarrow> error + acc" where
  "compute_mrd calc_mean_rate_dist inp crosscorr imt1 imt2 meabins sigbins monitor =
     (case calc_mean_rate_dist (ctx inp) (N inp) (cmaker inp) crosscorr imt1 imt2 meabins sigbins of
        Inl e \<Rightarrow> Inl e
      | Inr mrd \<Rightarrow> fill_dict mrd 0 (gidx (cmaker inp)) [])"

section \<open>The weighted combiner\<close>

text \<open>
  \<^verbatim>\<open>rlzs_by_g\<close>: the realizations of each sub-model index and the weight of each
  realization, read by subscription (a missing entry raises).
\<close>

record rlzs_by_g =
  rlzs :: "nat \<rightharpoonup> nat list"
  weig :: "nat \<rightharpoonup> real"

text \<open>The inner loop \<^verbatim>\<open>for rlz in rlzs[g]: out += weig[rlz] * value\<close>.\<close>

fun accumulate :: "(nat \<rightharpoonup> real) \<Rightarrow> ndarray \<Rightarrow> ndarray \<Rightarrow> nat list \<Rightarrow> error + ndarray" where
  "accumulate wt value out [] = Inr out"
| "accumulate wt value out (rlz # rest) =
     (case wt rlz of
        None \<Rightarrow> Inl LookupError
      | Some w \<Rightarrow>
          (case iadd out (smul w value) of
             Inl e \<Rightarrow> Inl e
           | Inr out' \<Rightarrow> accumulate wt value out' rest))"

text \<open>The outer loop \<^verbatim>\<open>for g in acc\<close>, over the keys still to visit.\<close>

fun combine_loop :: "rlzs_by_g \<Rightarrow> acc \<Rightarrow> ndarray \<Rightarrow> nat list \<Rightarrow> error + ndarray" where
  "combine_loop tbl acc out [] = Inr out"
| "combine_loop tbl acc out (g # gs) =
     (case map_of acc g of
        None \<Rightarrow> Inl LookupError
      | Some value \<Rightarrow>
          (case rlzs tbl g of
             None \<Rightarrow> Inl LookupError
           | Some rs \<Rightarrow>
               (case accumulate (weig tbl) value out rs of
                  Inl e \<Rightarrow> Inl e
                | Inr out' \<Rightarrow> combine_loop tbl acc out' gs)))"

text \<open>
  \<^verbatim>\<open>combine_mrds\<close>: \<^verbatim>\<open>next(iter(acc))\<close> raises \<open>StopIteration\<close> on an empty dict;
  the output takes the shape of the array under the first key.
\<close>

definition combine_mrds :: "acc \<Rightarrow> rlzs_by_g \<Rightarrow> error + ndarray" where
  "combine_mrds acc tbl =
     (case acc of
        [] \<Rightarrow> Inl StopIteration
      | (g, a) # _ \<Rightarrow> combine_loop tbl acc (zeros (shape a)) (map fst acc))"

text \<open>
  The specification's formula for element \<open>i\<close> of the combined array: the sum over the
  sub-model indices present of the sum over their realizations of weight times array.
\<close>

definition weighted_sum :: "acc \<Rightarrow> rlzs_by_g \<Rightarrow> nat \<Rightarrow> real" where
  "weighted_sum acc tbl i =
     (\<Sum>g\<leftarrow>map fst acc. \<Sum>r\<leftarrow>the (rlzs tbl g).
        the (weig tbl r) * (data (the (map_of acc g)) ! i))"

text \<open>
  The sub-model indices \<open>gs\<close> whose arrays the accumulation into an output of shape
  \<open>s\<close> accepts: an index with no realization is never added, any other needs an
  array that broadcasts to \<open>s\<close>.
\<close>

definition shapes_accepted :: "acc \<Rightarrow> rlzs_by_g \<Rightarrow> nat list \<Rightarrow> nat list \<Rightarrow> bool" where
  "shapes_accepted acc tbl s gs =
     list_all (\<lambda>g. the (rlzs tbl g) = [] \<or> broadcastable (shape (the (map_of acc g))) s) gs"

text \<open>The weight table with every weight multiplied by \<open>c\<close>.\<close>

definition scale_weights :: "real \<Rightarrow> rlzs_by_g \<Rightarrow> rlzs_by_g" where
  "scale_weights c tbl = tbl\<lparr>weig := (\<lambda>r. map_option ((*) c) (weig tbl r))\<rparr>"

text \<open>An array given by its shape and a function of the flat index.\<close>

definition arr :: "nat list \<Rightarrow> (nat \<Rightarrow> real) \<Rightarrow> ndarray" where
  "arr s f = \<lparr>shape = s, data = map f [0..<prod_list s]\<rparr>"

section \<open>The partitioner\<close>

text \<open>
  \<^verbatim>\<open>numpy.ceil(n / T)\<close> for integers \<open>n\<close> and \<open>T \<noteq> 0\<close>. Python's \<^verbatim>\<open>/\<close> is the correctly
  rounded quotient, so below \<open>2 ^ 53\<close> records its ceiling is the exact one.
\<close>

definition ceil_div :: "int \<Rightarrow> int \<Rightarrow> int" where
  "ceil_div n t = - ((- n) div t)"

text \<open>\<^verbatim>\<open>ctx[slc]\<close> for \<^verbatim>\<open>slc = slice(a, b)\<close>\<close>

definition getslice :: "'a list \<Rightarrow> nat \<times> nat \<Rightarrow> 'a list" where
  "getslice xs slc = take (snd slc - fst slc) (drop (fst slc) xs)"

function gen_slices_from :: "nat \<Rightarrow> nat \<Rightarrow> nat \<Rightarrow> (nat \<times> nat) list" where
  "gen_slices_from start stop b =
     (if b = 0 \<or> stop \<le> start then []
      else (start, min (start + b) stop) # gen_slices_from (start + b) stop b)"
  by pat_completeness auto
termination
  by (relation "measure (\<lambda>(start, stop, b). stop - start)") auto

text \<open>
  Modelled from the spec: \<^verbatim>\<open>openquake.baselib.general.gen_slices\<close> is not among the
  sources. Section 4.1 of the specification: contiguous slices of length at most
  \<open>blocksize\<close>, in the original order, covering the range exactly once, the last one
  possibly shorter; an empty range yields no slice; an invalid partition target is a
  \<open>ConfigurationError\<close> (it reaches this function as a block size below 1).
\<close>

definition gen_slices :: "nat \<Rightarrow> nat \<Rightarrow> int \<Rightarrow> error + (nat \<times> nat) list" where
  "gen_slices start stop blocksize =
     (if stop \<le> start then Inr []
      else if blocksize < 1 then Inl ConfigurationError
      else Inr (gen_slices_from start stop (nat blocksize)))"

text \<open>Consecutive slices from \<open>s\<close> to \<open>e\<close>: each one starts where the one before ends.\<close>

fun chain :: "nat \<Rightarrow> (nat \<times> nat) list \<Rightarrow> nat \<Rightarrow> bool" where
  "chain s [] e = (s = e)"
| "chain s (slc # rest) e = (fst slc = s \<and> chain (snd slc) rest e)"

section \<open>The orchestrator\<close>

text \<open>What \<^verbatim>\<open>main\<close> reads from the datastore.\<close>

record 'c dstore =
  sitecol_len :: nat
  imtls_size :: nat
  imtls_len :: nat
  concurrent_tasks :: int
  cmakers :: "nat \<rightharpoonup> cmaker"
  ctx_by_grp :: "(nat \<times> 'c list) list"
  rlzs_by_g_tbl :: rlzs_by_g

text \<open>
  What \<^verbatim>\<open>main\<close> does to the world: the warning about many levels, the count it logs,
  the switch of the datastore to SWMR mode, the units submitted to the task runner
  (in order), the creation of the dataset \<^verbatim>\<open>mrd\<close> and the array written to it.
\<close>

record 'c effects =
  warnings :: "int list"
  infos :: "nat list"
  swmr :: bool
  submitted :: "'c Input list"
  mrd_shape :: "int list option"
  mrd_value :: "ndarray option"

definition no_effects :: "'c effects" where
  "no_effects = \<lparr>warnings = [], infos = [], swmr = False, submitted = [],
                  mrd_shape = None, mrd_value = None\<rparr>"

text \<open>
  The two nested loops of \<^verbatim>\<open>main\<close>: for each group its model binding is looked up,
  then one unit is submitted for each slice of the group's contexts.
\<close>

fun submit_all ::
  "(nat \<rightharpoonup> cmaker) \<Rightarrow> nat \<Rightarrow> int \<Rightarrow> (nat \<times> 'c list) list \<Rightarrow> 'c Input list
   \<Rightarrow> error option \<times> 'c Input list" where
  "submit_all cms n blocksize [] units = (None, units)"
| "submit_all cms n blocksize ((grp_id, c) # groups) units =
     (case cms grp_id of
        None \<Rightarrow> (Some LookupError, units)
      | Some cm \<Rightarrow>
          (case gen_slices 0 (length c) blocksize of
             Inl e \<Rightarrow> (Some e, units)
           | Inr slcs \<Rightarrow>
               submit_all cms n blocksize groups
                 (units @ map (\<lambda>slc. new_Input (getslice c slc) cm n) slcs)))"

text \<open>
  The units cut from one group with block size \<open>b\<close>: one for each slice, in order,
  each with the group's own model binding.
\<close>

definition group_units :: "(nat \<rightharpoonup> cmaker) \<Rightarrow> nat \<Rightarrow> nat \<Rightarrow> nat \<times> 'c list \<Rightarrow> 'c Input list" where
  "group_units cms n b grp =
     map (\<lambda>slc. new_Input (getslice (snd grp) slc) (the (cms (fst grp))) n)
         (gen_slices_from 0 (length (snd grp)) b)"

text \<open>
  The units that the loop of \<open>main\<close> submits for one group: when the group has a
  model binding and its range can be sliced, one unit for each slice, holding that
  slice of the group's records and the group's own binding; none otherwise.
\<close>

definition units_cut :: "(nat \<rightharpoonup> cmaker) \<Rightarrow> nat \<Rightarrow> int \<Rightarrow> nat \<times> 'c list \<Rightarrow> 'c Input list" where
  "units_cut cms n blocksize grp =
     (case cms (fst grp) of
        None \<Rightarrow> []
      | Some cm \<Rightarrow>
          (case gen_slices 0 (length (snd grp)) blocksize of
             Inl e \<Rightarrow> []
           | Inr slcs \<Rightarrow> map (\<lambda>slc. new_Input (getslice (snd grp) slc) cm n) slcs))"

text \<open>
  The units on the runner after the loop over \<open>groups\<close>, started with \<open>units\<close>
  submitted already, are those of the first \<open>k\<close> groups, of all groups when the loop
  raised nothing.
\<close>

definition prefix_fact ::
  "(nat \<rightharpoonup> cmaker) \<Rightarrow> nat \<Rightarrow> int \<Rightarrow> (nat \<times> 'c list) list \<Rightarrow> 'c Input list \<Rightarrow> nat \<Rightarrow> bool" where
  "prefix_fact cms n b groups units k =
     (k \<le> length groups
      \<and> snd (submit_all cms n b groups units)
          = units @ concat (map (units_cut cms n b) (take k groups))
      \<and> (fst (submit_all cms n b groups units) = None \<longrightarrow> k = length groups))"

text \<open>The task runner applies the task to every submitted unit; a failure propagates.\<close>

fun run_units :: "('u \<Rightarrow> error + 'r) \<Rightarrow> 'u list \<Rightarrow> error + 'r list" where
  "run_units task [] = Inr []"
| "run_units task (u # us) =
     (case task u of
        Inl e \<Rightarrow> Inl e
      | Inr r \<Rightarrow> (case run_units task us of Inl e \<Rightarrow> Inl e | Inr rs \<Rightarrow> Inr (r # rs)))"

text \<open>
  \<^verbatim>\<open>main\<close>. Parameters standing for code outside the sources: \<open>cc\<close> resolves the
  name of a cross correlation model (\<^verbatim>\<open>getattr(cc, cross_correlation)()\<close>),
  \<open>calc_mean_rate_dist\<close> is the numeric kernel, \<open>starmap_reduce\<close> merges the partial
  results of the units into one dict (\<^verbatim>\<open>smap.reduce()\<close>). The result is the exception
  raised, if any, and the effects up to that point.
\<close>

definition main ::
  "(string \<Rightarrow> 'x option)
   \<Rightarrow> ('c list \<Rightarrow> nat \<Rightarrow> cmaker \<Rightarrow> 'x \<Rightarrow> string \<Rightarrow> string \<Rightarrow> real list \<Rightarrow> real list \<Rightarrow> error + ndarray)
   \<Rightarrow> (acc list \<Rightarrow> error + acc)
   \<Rightarrow> 'c dstore \<Rightarrow> string \<Rightarrow> string \<Rightarrow> string \<Rightarrow> nat \<Rightarrow> real list \<Rightarrow> real list
   \<Rightarrow> error option \<times> 'c effects" where
  "main cc calc_mean_rate_dist starmap_reduce dstore imt1 imt2 cross_correlation seed meabins sigbins =
     (case cc cross_correlation of
        None \<Rightarrow> (Some AttributeError, no_effects)
      | Some crosscorr \<Rightarrow>
     if imtls_len dstore = 0 then (Some ZeroDivisionError, no_effects)
     else
       let L1 = int (imtls_size dstore div imtls_len dstore) - 1;
           st1 = (if L1 > 24 then no_effects\<lparr>warnings := [L1 + 1]\<rparr> else no_effects)
       in
     if \<not> sitecol_len dstore \<le> 10
     then (Some (AssertionError ''Too many sites: %d'' (sitecol_len dstore)), st1)
     else
       let n = sum_list (map (\<lambda>(grp_id, c). length c) (ctx_by_grp dstore));
           st2 = st1\<lparr>infos := [n]\<rparr>
       in
     if concurrent_tasks dstore = 0 then (Some ZeroDivisionError, st2)
     else
       let blocksize = ceil_div (int n) (concurrent_tasks dstore);
           st3 = st2\<lparr>swmr := True\<rparr>
       in
     (case submit_all (cmakers dstore) (sitecol_len dstore) blocksize (ctx_by_grp dstore) [] of
        (Some e, units) \<Rightarrow> (Some e, st3\<lparr>submitted := units\<rparr>)
      | (None, units) \<Rightarrow>
     let st4 = st3\<lparr>submitted := units\<rparr> in
     (case run_units (\<lambda>inp. compute_mrd calc_mean_rate_dist inp crosscorr imt1 imt2
                             meabins sigbins ()) units of
        Inl e \<Rightarrow> (Some e, st4)
      | Inr results \<Rightarrow>
     (case starmap_reduce results of
        Inl e \<Rightarrow> (Some e, st4)
      | Inr acc \<Rightarrow>
     let st5 = st4\<lparr>mrd_shape := Some [L1, L1, int (sitecol_len dstore)]\<rparr> in
     (case combine_mrds acc (rlzs_by_g_tbl dstore) of
        Inl e \<Rightarrow> (Some e, st5)
      | Inr out \<Rightarrow> (None, st5\<lparr>mrd_value := Some out\<rparr>))))))"

text \<open>
  In how many partial results of a run the sub-model index \<open>g\<close> is a key, and the
  property that it is a key of exactly one, for every index that occurs at all.
\<close>

definition units_with_index :: "(error + acc) list \<Rightarrow> nat \<Rightarrow> nat" where
  "units_with_index partials g =
     length (filter (\<lambda>p. case p of Inl e \<Rightarrow> False | Inr d \<Rightarrow> g \<in> fst ` set d) partials)"

definition each_index_in_one_unit :: "(error + acc) list \<Rightarrow> bool" where
  "each_index_in_one_unit partials =
     list_all (\<lambda>g. units_with_index partials g = 1)
       (concat (map (\<lambda>p. case p of Inl e \<Rightarrow> [] | Inr d \<Rightarrow> map fst d) partials))"

section \<open>Sample runs\<close>

text \<open>
  The end-to-end scenario of the specification: one group of 12 records with the
  sub-model indices 0 and 1, target concurrency 4, one site; a kernel stub that
  returns 1 everywhere for the first sub-model and 2 for the second; realization 0
  (weight 0.6) uses index 0, realization 1 (weight 0.4) uses index 1. The reducer stub
  merges the partial results by replacement, key by key.
\<close>

definition scenario :: "nat dstore" where
  "scenario =
     \<lparr>sitecol_len = 1, imtls_size = 2, imtls_len = 1, concurrent_tasks = 4,
      cmakers = [0 \<mapsto> \<lparr>gidx = [0, 1]\<rparr>],
      ctx_by_grp = [(0, [0, 1, 2, 3, 4, 5, 6, 7, 8, 9, 10, 11])],
      rlzs_by_g_tbl = \<lparr>rlzs = [0 \<mapsto> [0], 1 \<mapsto> [1]], weig = [0 \<mapsto> 0.6, 1 \<mapsto> 0.4]\<rparr>\<rparr>"

text \<open>The same records in two groups of 4 and 8, the second with a binding of its own.\<close>

definition two_groups :: "nat dstore" where
  "two_groups =
     \<lparr>sitecol_len = 1, imtls_size = 2, imtls_len = 1, concurrent_tasks = 4,
      cmakers = [0 \<mapsto> \<lparr>gidx = [0, 1]\<rparr>, 1 \<mapsto> \<lparr>gidx = [2]\<rparr>],
      ctx_by_grp = [(0, [0, 1, 2, 3]), (1, [4, 5, 6, 7, 8, 9, 10, 11])],
      rlzs_by_g_tbl = \<lparr>rlzs = [0 \<mapsto> [0], 1 \<mapsto> [1], 2 \<mapsto> [0, 1]],
                       weig = [0 \<mapsto> 0.6, 1 \<mapsto> 0.4]\<rparr>\<rparr>"

definition stub_cc :: "string \<Rightarrow> unit option" where
  "stub_cc name = (if name = ''GodaAtkinson2009'' then Some () else None)"

definition stub_kernel ::
  "nat list \<Rightarrow> nat \<Rightarrow> cmaker \<Rightarrow> unit \<Rightarrow> string \<Rightarrow> string \<Rightarrow> real list \<Rightarrow> real list
   \<Rightarrow> error + ndarray" where
  "stub_kernel c n cm x i1 i2 mb sb =
     Inr \<lparr>shape = [1, 1, n, 2], data = concat (replicate n [1, 2])\<rparr>"

definition stub_reduce :: "acc list \<Rightarrow> error + acc" where
  "stub_reduce results = Inr (foldl (foldl (\<lambda>a (g, v). dict_set a g v)) [] results)"

definition run :: "nat dstore \<Rightarrow> error option \<times> nat effects" where
  "run ds = main stub_cc stub_kernel stub_reduce ds ''PGA'' ''SA(1.0)'' ''GodaAtkinson2009'' 42 [] []"

definition partials_of :: "nat Input list \<Rightarrow> (error + acc) list" where
  "partials_of units =
     map (\<lambda>inp. compute_mrd stub_kernel inp () ''PGA'' ''SA(1.0)'' [] [] ()) units"

section \<open>Broadcasting and accumulation\<close>

lemma bc_ok_refl: "bc_ok xs xs"
  by (induction xs) auto

lemma chunks_map: "chunks k n (map f d) = map (map f) (chunks k n d)"
  by (induction k arbitrary: d) (auto simp: take_map drop_map)

lemma bcast_map: "bcast ss ts (map f d) = map f (bcast ss ts d)"
proof (induction ss ts d rule: bcast.induct)
  case (1 s ss t ts d)
  then show ?case
    by (auto simp: chunks_map map_concat comp_def intro!: arg_cong[where f=concat])
qed auto

lemma concat_chunks: "length d = k * n \<Longrightarrow> concat (chunks k n d) = d"
  by (induction k arbitrary: d) auto

lemma length_chunks_elem: "length d = k * n \<Longrightarrow> c \<in> set (chunks k n d) \<Longrightarrow> length c = n"
proof (induction k arbitrary: d)
  case 0
  then show ?case by simp
next
  case (Suc k)
  have len: "length (drop n d) = k * n" using Suc.prems(1) by simp
  from Suc.prems(2) have "c = take n d \<or> c \<in> set (chunks k n (drop n d))" by simp
  then show ?case
  proof
    assume "c = take n d"
    then show ?thesis using Suc.prems(1) by simp
  next
    assume "c \<in> set (chunks k n (drop n d))"
    then show ?thesis using Suc.IH[OF len] by blast
  qed
qed

lemma bcast_same: "length d = prod_list ss \<Longrightarrow> bcast ss ss d = d"
proof (induction ss arbitrary: d)
  case Nil
  then show ?case by simp
next
  case (Cons s ss)
  have len: "length d = s * prod_list ss" using Cons.prems by simp
  have "\<And>c. c \<in> set (chunks s (prod_list ss) d) \<Longrightarrow> bcast ss ss c = c"
    using Cons.IH length_chunks_elem[OF len] by blast
  then have "map (bcast ss ss) (chunks s (prod_list ss) d) = chunks s (prod_list ss) d"
    by (rule map_idI)
  then show ?case using concat_chunks[OF len] by simp
qed


lemma zeros_arr: "zeros s = arr s (\<lambda>_. 0)"
  by (simp add: zeros_def arr_def map_replicate_const)

lemma iadd_arr:
  assumes "shape v = s" and "wf_array v"
  shows "iadd (arr s f) (smul w v) = Inr (arr s (\<lambda>i. f i + w * data v ! i))"
proof -
  have len: "length (data v) = prod_list s" using assms by (simp add: wf_array_def)
  have b: "broadcast_to (smul w v) s = map ((*) w) (data v)"
    using len assms(1) by (simp add: broadcast_to_def smul_def bcast_same)
  have "map2 (+) (map f [0..<prod_list s]) (map ((*) w) (data v))
        = map (\<lambda>i. f i + w * data v ! i) [0..<prod_list s]"
    using len by (intro nth_equalityI) simp_all
  then show ?thesis
    using assms(1) b by (simp add: iadd_def arr_def smul_def bc_ok_refl broadcastable_def)
qed

lemma accumulate_arr:
  assumes "shape v = s" and "wf_array v" and "\<forall>r\<in>set rs. wt r \<noteq> None"
  shows "accumulate wt v (arr s f) rs
         = Inr (arr s (\<lambda>i. f i + (\<Sum>r\<leftarrow>rs. the (wt r) * data v ! i)))"
  using assms(3)
proof (induction rs arbitrary: f)
  case Nil
  then show ?case by simp
next
  case (Cons r rs)
  then obtain w where w: "wt r = Some w" by auto
  have "accumulate wt v (arr s f) (r # rs)
        = accumulate wt v (arr s (\<lambda>i. f i + w * data v ! i)) rs"
    using w iadd_arr[OF assms(1,2)] by simp
  also have "\<dots> = Inr (arr s (\<lambda>i. (f i + w * data v ! i) + (\<Sum>r\<leftarrow>rs. the (wt r) * data v ! i)))"
    using Cons by simp
  finally show ?case using w by (simp add: add.assoc)
qed

lemma combine_loop_arr:
  assumes "\<forall>(g, a)\<in>set acc. shape a = s \<and> wf_array a"
    and "\<forall>g\<in>set gs. g \<in> fst ` set acc \<and>
           (\<exists>rs. rlzs tbl g = Some rs \<and> (\<forall>r\<in>set rs. weig tbl r \<noteq> None))"
  shows "combine_loop tbl acc (arr s f) gs
         = Inr (arr s (\<lambda>i. f i + (\<Sum>g\<leftarrow>gs. \<Sum>r\<leftarrow>the (rlzs tbl g).
                  the (weig tbl r) * (data (the (map_of acc g)) ! i))))"
  using assms(2)
proof (induction gs arbitrary: f)
  case Nil
  then show ?case by simp
next
  case (Cons g gs)
  from Cons.prems obtain rs where rs: "rlzs tbl g = Some rs"
    and ws: "\<forall>r\<in>set rs. weig tbl r \<noteq> None" and gin: "g \<in> fst ` set acc"
    by auto
  from gin obtain v where v: "map_of acc g = Some v"
    by (metis domD dom_map_of_conv_image_fst)
  then have "(g, v) \<in> set acc" by (rule map_of_SomeD)
  with assms(1) have sv: "shape v = s" and wv: "wf_array v" by auto
  have "combine_loop tbl acc (arr s f) (g # gs)
     = combine_loop tbl acc (arr s (\<lambda>i. f i + (\<Sum>r\<leftarrow>rs. the (weig tbl r) * data v ! i))) gs"
    using v rs accumulate_arr[OF sv wv ws] by simp
  also have "\<dots> = Inr (arr s (\<lambda>i. (f i + (\<Sum>r\<leftarrow>rs. the (weig tbl r) * data v ! i))
        + (\<Sum>g\<leftarrow>gs. \<Sum>r\<leftarrow>the (rlzs tbl g). the (weig tbl r) * (data (the (map_of acc g)) ! i))))"
    using Cons by simp
  finally show ?case using v rs by (simp add: add.assoc)
qed

section \<open>The combiner: results\<close>

text \<open>
  C10. Applied to an empty collection of partial results, the combiner fails: taking the
  first key of the empty dict raises \<open>StopIteration\<close>, and no array is returned.
\<close>

theorem combine_mrds_empty: "combine_mrds [] tbl = Inl StopIteration"
  by (simp add: combine_mrds_def)

text \<open>
  C1. For a non-empty collection of partial results whose arrays all have the shape
  \<open>s\<close>, and a weight table that lists the realizations of every index present and the
  weight of each of them, the combiner returns the array of shape \<open>s\<close> whose elements
  are, starting from zero, the sum over the indices \<open>g\<close> present of the sum over the
  realizations \<open>r\<close> of \<open>g\<close> of \<open>weight r\<close> times the array of \<open>g\<close>.
\<close>

theorem combine_mrds_weighted_sum:
  assumes "acc \<noteq> []"
    and "\<forall>(g, a)\<in>set acc. shape a = s \<and> wf_array a"
    and "\<forall>g\<in>fst ` set acc. \<exists>rs. rlzs tbl g = Some rs \<and> (\<forall>r\<in>set rs. weig tbl r \<noteq> None)"
  shows "combine_mrds acc tbl
         = Inr \<lparr>shape = s, data = map (weighted_sum acc tbl) [0..<prod_list s]\<rparr>"
proof -
  obtain g a rest where acc: "acc = (g, a) # rest"
    using assms(1) by (cases acc) auto
  have sa: "shape a = s" using assms(2) acc by auto
  have keys: "\<forall>g\<in>set (map fst acc). g \<in> fst ` set acc \<and>
           (\<exists>rs. rlzs tbl g = Some rs \<and> (\<forall>r\<in>set rs. weig tbl r \<noteq> None))"
    using assms(3) by simp
  have "combine_mrds acc tbl = combine_loop tbl acc (zeros (shape a)) (map fst acc)"
    unfolding combine_mrds_def acc by simp
  also have "\<dots> = combine_loop tbl acc (arr s (\<lambda>_. 0)) (map fst acc)"
    unfolding zeros_arr sa ..
  also have "\<dots> = Inr (arr s (\<lambda>i. 0 + weighted_sum acc tbl i))"
    unfolding weighted_sum_def by (rule combine_loop_arr[OF assms(2) keys])
  finally show ?thesis by (simp add: arr_def)
qed


theorem combine_mrds_weighted_sum_witness:
  "combine_mrds [(0, \<lparr>shape = [1, 1, 2], data = [1, 1]\<rparr>), (1, \<lparr>shape = [1, 1, 2], data = [2, 2]\<rparr>)]
     \<lparr>rlzs = [0 \<mapsto> [0], 1 \<mapsto> [1]], weig = [0 \<mapsto> 0.6, 1 \<mapsto> 0.4]\<rparr>
   = Inr \<lparr>shape = [1, 1, 2], data = [1.4, 1.4]\<rparr>"
proof -
  let ?acc = "[(0, \<lparr>shape = [1, 1, 2], data = [1, 1]\<rparr>), (1, \<lparr>shape = [1, 1, 2], data = [2, 2]\<rparr>)]"
  let ?tbl = "\<lparr>rlzs = [0 \<mapsto> [0], 1 \<mapsto> [1]], weig = [0 \<mapsto> 0.6, 1 \<mapsto> 0.4]\<rparr>"
  have u: "[0..<2] = [0, Suc 0]" by (simp add: upt_rec)
  have h1: "?acc \<noteq> []" by simp
  have h2: "\<forall>(g, a)\<in>set ?acc. shape a = [1, 1, 2] \<and> wf_array a"
    by (simp add: wf_array_def)
  have h3: "\<forall>g\<in>fst ` set ?acc. \<exists>rs. rlzs ?tbl g = Some rs \<and> (\<forall>r\<in>set rs. weig ?tbl r \<noteq> None)"
    by (auto intro: exI[of _ "3 / 5"] exI[of _ "2 / 5"])
  show ?thesis
    using combine_mrds_weighted_sum [OF h1 h2 h3]
    by (simp add: weighted_sum_def u)
qed

section \<open>Linearity in the weights\<close>

lemma map2_scale:
  "map2 (+) (map ((*) c) xs) (map ((*) (c * w)) ys)
   = map ((*) (c::real)) (map2 (+) xs (map ((*) w) ys))"
proof (induction xs arbitrary: ys)
  case Nil
  then show ?case by simp
next
  case (Cons x xs)
  then show ?case by (cases ys) (simp_all add: algebra_simps)
qed

lemma broadcast_to_smul: "broadcast_to (smul k v) s = map ((*) k) (broadcast_to v s)"
  by (simp add: broadcast_to_def smul_def bcast_map)

lemma smul_zeros: "smul c (zeros s) = zeros s"
  by (simp add: smul_def zeros_def)

lemma iadd_scale:
  "iadd (smul c out) (smul (c * w) v)
   = (case iadd out (smul w v) of Inl e \<Rightarrow> Inl e | Inr out' \<Rightarrow> Inr (smul c out'))"
proof (cases "broadcastable (shape v) (shape out)")
  case True
  have "map2 (+) (map ((*) c) (data out)) (map ((*) (c * w)) (broadcast_to v (shape out)))
        = map ((*) c) (map2 (+) (data out) (map ((*) w) (broadcast_to v (shape out))))"
    by (rule map2_scale)
  then show ?thesis
    using True by (simp add: iadd_def broadcast_to_smul) (simp add: smul_def)
next
  case False
  then show ?thesis by (simp add: iadd_def smul_def)
qed

lemma accumulate_scale:
  "accumulate (\<lambda>r. map_option ((*) c) (wt r)) v (smul c out) rs
   = (case accumulate wt v out rs of Inl e \<Rightarrow> Inl e | Inr out' \<Rightarrow> Inr (smul c out'))"
proof (induction rs arbitrary: out)
  case Nil
  then show ?case by simp
next
  case (Cons r rs)
  show ?case
  proof (cases "wt r")
    case None
    then show ?thesis by simp
  next
    case (Some w)
    show ?thesis
    proof (cases "iadd out (smul w v)")
      case (Inl e)
      then show ?thesis using Some iadd_scale[of c out w v] by simp
    next
      case (Inr out')
      then show ?thesis using Some iadd_scale[of c out w v] Cons.IH[of out'] by simp
    qed
  qed
qed

lemma combine_loop_scale:
  "combine_loop (scale_weights c tbl) acc (smul c out) gs
   = (case combine_loop tbl acc out gs of Inl e \<Rightarrow> Inl e | Inr out' \<Rightarrow> Inr (smul c out'))"
proof (induction gs arbitrary: out)
  case Nil
  then show ?case by simp
next
  case (Cons g gs)
  have r: "rlzs (scale_weights c tbl) = rlzs tbl"
    and w: "weig (scale_weights c tbl) = (\<lambda>r. map_option ((*) c) (weig tbl r))"
    by (simp_all add: scale_weights_def)
  show ?case
  proof (cases "map_of acc g")
    case None
    then show ?thesis by simp
  next
    case (Some v)
    note v = this
    show ?thesis
    proof (cases "rlzs tbl g")
      case None
      then show ?thesis using v r by simp
    next
      case (Some rs)
      show ?thesis
      proof (cases "accumulate (weig tbl) v out rs")
        case (Inl e)
        then show ?thesis
          using v Some r w accumulate_scale[of c "weig tbl" v out rs] by simp
      next
        case (Inr out')
        then show ?thesis
          using v Some r w accumulate_scale[of c "weig tbl" v out rs] Cons.IH[of out'] by simp
      qed
    qed
  qed
qed

text \<open>
  C7. For every collection of partial results and every weight table, multiplying every
  weight of the table by a constant \<open>c\<close> multiplies every element of the combiner's
  output by \<open>c\<close>; where the combiner fails, it fails with the same error.
\<close>

theorem combine_mrds_linear_in_weights:
  "combine_mrds acc (scale_weights c tbl)
   = (case combine_mrds acc tbl of Inl e \<Rightarrow> Inl e | Inr out \<Rightarrow> Inr (smul c out))"
proof (cases acc)
  case Nil
  then show ?thesis by (simp add: combine_mrds_def)
next
  case (Cons p rest)
  obtain g a where p: "p = (g, a)" by (cases p)
  show ?thesis
    using combine_loop_scale[of c tbl acc "zeros (shape a)" "map fst acc"]
    unfolding combine_mrds_def Cons p by (simp add: smul_zeros)
qed

theorem combine_mrds_linear_in_weights_witness:
  "combine_mrds [(0, \<lparr>shape = [1, 1, 2], data = [1, 1]\<rparr>), (1, \<lparr>shape = [1, 1, 2], data = [2, 2]\<rparr>)]
     (scale_weights 2 \<lparr>rlzs = [0 \<mapsto> [0], 1 \<mapsto> [1]], weig = [0 \<mapsto> 0.6, 1 \<mapsto> 0.4]\<rparr>)
   = Inr \<lparr>shape = [1, 1, 2], data = [2.8, 2.8]\<rparr>"
proof -
  have e: "combine_mrds [(0, \<lparr>shape = [1, 1, 2], data = [1, 1]\<rparr>), (1, \<lparr>shape = [1, 1, 2], data = [2, 2]\<rparr>)]
     \<lparr>rlzs = [0 \<mapsto> [0], 1 \<mapsto> [1]], weig = [0 \<mapsto> 0.6, 1 \<mapsto> 0.4]\<rparr>
   = Inr \<lparr>shape = [1, 1, 2], data = [1.4, 1.4]\<rparr>"
    by code_simp
  show ?thesis
    by (subst combine_mrds_linear_in_weights, subst e) (simp add: smul_def)
qed

section \<open>Shapes during combination\<close>

lemma iadd_shape:
  "iadd out x = (if broadcastable (shape x) (shape out)
                 then Inr \<lparr>shape = shape out,
                           data = map2 (+) (data out) (broadcast_to x (shape out))\<rparr>
                 else Inl ValueError)"
  by (simp add: iadd_def)

lemma accumulate_accepts:
  assumes "\<forall>r\<in>set rs. wt r \<noteq> None" and "rs = [] \<or> broadcastable (shape v) (shape out)"
  shows "\<exists>out'. accumulate wt v out rs = Inr out' \<and> shape out' = shape out"
  using assms
proof (induction rs arbitrary: out)
  case Nil
  then show ?case by simp
next
  case (Cons r rs)
  then obtain w where w: "wt r = Some w" by auto
  from Cons.prems(2) have bc: "broadcastable (shape v) (shape out)" by simp
  let ?out = "\<lparr>shape = shape out,
               data = map2 (+) (data out) (broadcast_to (smul w v) (shape out))\<rparr>"
  have step: "iadd out (smul w v) = Inr ?out"
    using bc by (simp add: iadd_def smul_def)
  have "\<exists>out'. accumulate wt v ?out rs = Inr out' \<and> shape out' = shape ?out"
    using Cons.prems(1) bc by (intro Cons.IH) simp_all
  then show ?case using w step by simp
qed

lemma accumulate_rejects:
  assumes "rs \<noteq> []" and "\<forall>r\<in>set rs. wt r \<noteq> None"
    and "\<not> broadcastable (shape v) (shape out)"
  shows "accumulate wt v out rs = Inl ValueError"
proof -
  obtain r rest where rs: "rs = r # rest" using assms(1) by (cases rs) auto
  then obtain w where w: "wt r = Some w" using assms(2) by auto
  have "iadd out (smul w v) = Inl ValueError"
    using assms(3) by (simp add: iadd_def smul_def)
  then show ?thesis using rs w by simp
qed

lemma combine_loop_accepts:
  assumes "\<forall>g\<in>set gs. g \<in> fst ` set acc \<and>
             (\<exists>rs. rlzs tbl g = Some rs \<and> (\<forall>r\<in>set rs. weig tbl r \<noteq> None))"
    and "shapes_accepted acc tbl (shape out) gs"
  shows "\<exists>out'. combine_loop tbl acc out gs = Inr out' \<and> shape out' = shape out"
  using assms
proof (induction gs arbitrary: out)
  case Nil
  then show ?case by simp
next
  case (Cons g gs)
  from Cons.prems(1) obtain rs where rs: "rlzs tbl g = Some rs"
    and ws: "\<forall>r\<in>set rs. weig tbl r \<noteq> None" and gin: "g \<in> fst ` set acc"
    by auto
  from gin obtain v where v: "map_of acc g = Some v"
    by (metis domD dom_map_of_conv_image_fst)
  from Cons.prems(2) have ok: "rs = [] \<or> broadcastable (shape v) (shape out)"
    and rest: "shapes_accepted acc tbl (shape out) gs"
    using rs v by (simp_all add: shapes_accepted_def)
  from accumulate_accepts[OF ws ok] obtain out1
    where o1: "accumulate (weig tbl) v out rs = Inr out1" and s1: "shape out1 = shape out"
    by blast
  have "\<exists>out'. combine_loop tbl acc out1 gs = Inr out' \<and> shape out' = shape out1"
    using Cons.prems(1) rest s1 by (intro Cons.IH) simp_all
  then show ?case using v rs o1 s1 by simp
qed

lemma combine_loop_rejects:
  assumes "\<forall>g\<in>set gs. g \<in> fst ` set acc \<and>
             (\<exists>rs. rlzs tbl g = Some rs \<and> (\<forall>r\<in>set rs. weig tbl r \<noteq> None))"
    and "\<not> shapes_accepted acc tbl (shape out) gs"
  shows "combine_loop tbl acc out gs = Inl ValueError"
  using assms
proof (induction gs arbitrary: out)
  case Nil
  then show ?case by (simp add: shapes_accepted_def)
next
  case (Cons g gs)
  from Cons.prems(1) obtain rs where rs: "rlzs tbl g = Some rs"
    and ws: "\<forall>r\<in>set rs. weig tbl r \<noteq> None" and gin: "g \<in> fst ` set acc"
    by auto
  from gin obtain v where v: "map_of acc g = Some v"
    by (metis domD dom_map_of_conv_image_fst)
  show ?case
  proof (cases "rs = [] \<or> broadcastable (shape v) (shape out)")
    case True
    from accumulate_accepts[OF ws True] obtain out1
      where o1: "accumulate (weig tbl) v out rs = Inr out1" and s1: "shape out1 = shape out"
      by blast
    have "\<not> shapes_accepted acc tbl (shape out1) gs"
      using Cons.prems(2) True rs v s1 by (simp add: shapes_accepted_def)
    then have "combine_loop tbl acc out1 gs = Inl ValueError"
      using Cons.prems(1) by (intro Cons.IH) simp_all
    then show ?thesis using v rs o1 by simp
  next
    case False
    then have "accumulate (weig tbl) v out rs = Inl ValueError"
      using accumulate_rejects[of rs "weig tbl" v out] ws by simp
    then show ?thesis using v rs by simp
  qed
qed

text \<open>
  C2 (as amended). The combiner takes the output shape from the array under the first key
  and makes no shape check of its own. With a weight table defined on the indices
  present and their realizations, it fails exactly when the array of some index that
  has at least one realization does not broadcast to the output shape, and the failure
  is numpy's \<open>ValueError\<close>; otherwise it returns an array of the output shape. The
  array of an index with no realization is never inspected, and an array of another
  shape that broadcasts is added silently.
\<close>

theorem combine_mrds_shape_errors:
  assumes "acc = (g0, a0) # rest"
    and "\<forall>g\<in>fst ` set acc. \<exists>rs. rlzs tbl g = Some rs \<and> (\<forall>r\<in>set rs. weig tbl r \<noteq> None)"
  shows "if shapes_accepted acc tbl (shape a0) (map fst acc)
         then \<exists>out. combine_mrds acc tbl = Inr out \<and> shape out = shape a0
         else combine_mrds acc tbl = Inl ValueError"
proof -
  have keys: "\<forall>g\<in>set (map fst acc). g \<in> fst ` set acc \<and>
           (\<exists>rs. rlzs tbl g = Some rs \<and> (\<forall>r\<in>set rs. weig tbl r \<noteq> None))"
    using assms(2) by simp
  have c: "combine_mrds acc tbl = combine_loop tbl acc (zeros (shape a0)) (map fst acc)"
    unfolding combine_mrds_def assms(1) by simp
  have z: "shape (zeros (shape a0)) = shape a0" by (simp add: zeros_def)
  show ?thesis
  proof (cases "shapes_accepted acc tbl (shape a0) (map fst acc)")
    case True
    then show ?thesis
      using combine_loop_accepts[OF keys, of "zeros (shape a0)"] c z by simp
  next
    case False
    then show ?thesis
      using combine_loop_rejects[OF keys, of "zeros (shape a0)"] c z by simp
  qed
qed

theorem combine_mrds_shape_errors_witness:
  "combine_mrds [(0, \<lparr>shape = [1, 1, 2], data = [1, 1]\<rparr>), (1, \<lparr>shape = [1, 1, 3], data = [2, 2, 2]\<rparr>)]
     \<lparr>rlzs = [0 \<mapsto> [0], 1 \<mapsto> [1]], weig = [0 \<mapsto> 0.5, 1 \<mapsto> 0.5]\<rparr>
   = Inl ValueError"
proof -
  let ?acc = "[(0, \<lparr>shape = [1, 1, 2], data = [1, 1]\<rparr>), (1, \<lparr>shape = [1, 1, 3], data = [2, 2, 2]\<rparr>)]"
  let ?tbl = "\<lparr>rlzs = [0 \<mapsto> [0], 1 \<mapsto> [1]], weig = [0 \<mapsto> 0.5, 1 \<mapsto> 0.5]\<rparr>"
  have h1: "?acc = (0, \<lparr>shape = [1, 1, 2], data = [1, 1]\<rparr>) # [(1, \<lparr>shape = [1, 1, 3], data = [2, 2, 2]\<rparr>)]"
    by simp
  have h2: "\<forall>g\<in>fst ` set ?acc. \<exists>rs. rlzs ?tbl g = Some rs \<and> (\<forall>r\<in>set rs. weig ?tbl r \<noteq> None)"
    by (auto intro: exI[of _ "1 / 2"])
  show ?thesis
    using combine_mrds_shape_errors [OF h1 h2]
    by (simp add: shapes_accepted_def broadcastable_def)
qed

text \<open>
  Two collections whose arrays disagree in shape and which the combiner accepts: a
  \<open>(1, 1, 1)\<close> array is broadcast into the \<open>(1, 1, 2)\<close> output, and the \<open>(3, 1)\<close>
  array of an index without realizations is never looked at.
\<close>

theorem combine_mrds_shape_counterexample:
  "combine_mrds [(0, \<lparr>shape = [1, 1, 2], data = [1, 1]\<rparr>), (1, \<lparr>shape = [1, 1, 1], data = [2]\<rparr>)]
     \<lparr>rlzs = [0 \<mapsto> [0], 1 \<mapsto> [1]], weig = [0 \<mapsto> 0.5, 1 \<mapsto> 0.5]\<rparr>
   = Inr \<lparr>shape = [1, 1, 2], data = [1.5, 1.5]\<rparr>
   \<and> combine_mrds [(0, \<lparr>shape = [1, 1, 2], data = [1, 1]\<rparr>), (1, \<lparr>shape = [3, 1], data = [2, 2, 2]\<rparr>)]
     \<lparr>rlzs = [0 \<mapsto> [0], 1 \<mapsto> []], weig = [0 \<mapsto> 0.5]\<rparr>
   = Inr \<lparr>shape = [1, 1, 2], data = [0.5, 0.5]\<rparr>"
  by code_simp

section \<open>Indices absent from the collection\<close>

lemma combine_loop_cong:
  assumes "\<forall>g\<in>set gs. rlzs tbl g = rlzs tbl' g" and "weig tbl = weig tbl'"
  shows "combine_loop tbl acc out gs = combine_loop tbl' acc out gs"
  using assms(1)
proof (induction gs arbitrary: out)
  case Nil
  then show ?case by simp
next
  case (Cons g gs)
  then have "rlzs tbl g = rlzs tbl' g" and "\<forall>g\<in>set gs. rlzs tbl g = rlzs tbl' g"
    by simp_all
  then show ?case
    using Cons.IH assms(2) by (simp split: option.splits sum.splits)
qed

text \<open>
  C4 (as amended). When the collected partial results omit a sub-model index \<open>g\<close>, the
  combiner raises no error on that account: whatever the weight table declares for
  \<open>g\<close> (realizations, or nothing), for well-formed partial results it returns the
  weighted sum over the indices that are present.
\<close>

theorem combine_mrds_missing_index:
  assumes "g \<notin> fst ` set acc"
    and "acc \<noteq> []"
    and "\<forall>(g, a)\<in>set acc. shape a = s \<and> wf_array a"
    and "\<forall>g\<in>fst ` set acc. \<exists>rs. rlzs tbl g = Some rs \<and> (\<forall>r\<in>set rs. weig tbl r \<noteq> None)"
  shows "combine_mrds acc (tbl\<lparr>rlzs := (rlzs tbl)(g := declared)\<rparr>)
           = Inr \<lparr>shape = s, data = map (weighted_sum acc tbl) [0..<prod_list s]\<rparr>"
proof -
  let ?tbl = "tbl\<lparr>rlzs := (rlzs tbl)(g := declared)\<rparr>"
  obtain g0 a rest where acc: "acc = (g0, a) # rest"
    using assms(2) by (cases acc) auto
  have sa: "shape a = s" using assms(3) acc by auto
  have same: "\<forall>k\<in>set (map fst acc). rlzs ?tbl k = rlzs tbl k"
    using assms(1) by auto
  have keys: "\<forall>g\<in>set (map fst acc). g \<in> fst ` set acc \<and>
           (\<exists>rs. rlzs tbl g = Some rs \<and> (\<forall>r\<in>set rs. weig tbl r \<noteq> None))"
    using assms(4) by simp
  have "combine_mrds acc ?tbl = combine_loop ?tbl acc (zeros (shape a)) (map fst acc)"
    unfolding combine_mrds_def acc by simp
  also have "\<dots> = combine_loop tbl acc (zeros (shape a)) (map fst acc)"
    by (rule combine_loop_cong[OF same]) simp
  also have "\<dots> = combine_loop tbl acc (arr s (\<lambda>_. 0)) (map fst acc)"
    unfolding zeros_arr sa ..
  also have "\<dots> = Inr (arr s (\<lambda>i. 0 + weighted_sum acc tbl i))"
    unfolding weighted_sum_def by (rule combine_loop_arr[OF assms(3) keys])
  finally show ?thesis by (simp add: arr_def)
qed

theorem combine_mrds_missing_index_witness:
  "combine_mrds [(0, \<lparr>shape = [1, 1, 1], data = [1]\<rparr>)]
     \<lparr>rlzs = [0 \<mapsto> [0], 1 \<mapsto> [1]], weig = [0 \<mapsto> 0.6, 1 \<mapsto> 0.4]\<rparr>
   = Inr \<lparr>shape = [1, 1, 1], data = [0.6]\<rparr>"
proof -
  let ?acc = "[(0, \<lparr>shape = [1, 1, 1], data = [1]\<rparr>)]"
  let ?tbl = "\<lparr>rlzs = [0 \<mapsto> [0]], weig = [0 \<mapsto> 0.6, 1 \<mapsto> 0.4]\<rparr>"
  have h1: "(1::nat) \<notin> fst ` set ?acc" by simp
  have h2: "?acc \<noteq> []" by simp
  have h3: "\<forall>(g, a)\<in>set ?acc. shape a = [1, 1, 1] \<and> wf_array a"
    by (simp add: wf_array_def)
  have h4: "\<forall>g\<in>fst ` set ?acc. \<exists>rs. rlzs ?tbl g = Some rs \<and> (\<forall>r\<in>set rs. weig ?tbl r \<noteq> None)"
    by (auto intro: exI[of _ "3 / 5"])
  show ?thesis
    using combine_mrds_missing_index [OF h1 h2 h3 h4, of "Some [1]"]
    by (simp add: weighted_sum_def)
qed

text \<open>
  The binding declares the indices 0 and 1, the collection holds index 0 only: the
  combiner returns the partial sum \<open>0.6 * A\<^sub>0\<close>.
\<close>

theorem combine_mrds_missing_index_counterexample:
  "combine_mrds [(0, \<lparr>shape = [1, 1, 2], data = [1, 1]\<rparr>)]
     \<lparr>rlzs = [0 \<mapsto> [0], 1 \<mapsto> [1]], weig = [0 \<mapsto> 0.6, 1 \<mapsto> 0.4]\<rparr>
   = Inr \<lparr>shape = [1, 1, 2], data = [0.6, 0.6]\<rparr>"
  by code_simp

section \<open>Slices\<close>

declare gen_slices_from.simps [simp del]

lemma gen_slices_from_stop:
  "b = 0 \<or> stop \<le> start \<Longrightarrow> gen_slices_from start stop b = []"
  by (subst gen_slices_from.simps) simp

lemma gen_slices_from_step:
  "0 < b \<Longrightarrow> start < stop \<Longrightarrow>
   gen_slices_from start stop b
   = (start, min (start + b) stop) # gen_slices_from (start + b) stop b"
  by (subst gen_slices_from.simps) simp

lemma gen_slices_from_chain:
  "0 < b \<Longrightarrow> start \<le> stop \<Longrightarrow> chain start (gen_slices_from start stop b) stop"
proof (induction start stop b rule: gen_slices_from.induct)
  case (1 start stop b)
  show ?case
  proof (cases "start < stop")
    case False
    then show ?thesis using "1.prems" by (simp add: gen_slices_from_stop)
  next
    case True
    show ?thesis
    proof (cases "start + b \<le> stop")
      case True
      then show ?thesis
        using "1.IH" "1.prems" \<open>start < stop\<close>
        by (simp add: gen_slices_from_step min_absorb1)
    next
      case False
      then have "gen_slices_from (start + b) stop b = []"
        by (simp add: gen_slices_from_stop)
      then show ?thesis
        using False "1.prems" \<open>start < stop\<close>
        by (simp add: gen_slices_from_step min_absorb2)
    qed
  qed
qed

lemma gen_slices_from_bounds:
  "slc \<in> set (gen_slices_from start stop b) \<Longrightarrow>
   start \<le> fst slc \<and> fst slc < snd slc \<and> snd slc - fst slc \<le> b \<and> snd slc \<le> stop"
proof (induction start stop b rule: gen_slices_from.induct)
  case (1 start stop b)
  show ?case
  proof (cases "b = 0 \<or> stop \<le> start")
    case True
    then show ?thesis using "1.prems" by (simp add: gen_slices_from_stop)
  next
    case False
    then have "slc = (start, min (start + b) stop) \<or> slc \<in> set (gen_slices_from (start + b) stop b)"
      using "1.prems" by (simp add: gen_slices_from_step)
    then show ?thesis
    proof
      assume "slc = (start, min (start + b) stop)"
      then show ?thesis using False by auto
    next
      assume "slc \<in> set (gen_slices_from (start + b) stop b)"
      then show ?thesis using "1.IH"[OF False] by auto
    qed
  qed
qed

lemma gen_slices_from_cover:
  "0 < b \<Longrightarrow> start \<le> stop \<Longrightarrow>
   concat (map (getslice xs) (gen_slices_from start stop b)) = take (stop - start) (drop start xs)"
proof (induction start stop b rule: gen_slices_from.induct)
  case (1 start stop b)
  show ?case
  proof (cases "start < stop")
    case False
    then show ?thesis using "1.prems" by (simp add: gen_slices_from_stop)
  next
    case True
    show ?thesis
    proof (cases "start + b \<le> stop")
      case True
      have "take (stop - start) (drop start xs)
            = take (b + (stop - (start + b))) (drop start xs)"
        using True by simp
      also have "\<dots> = take b (drop start xs) @ take (stop - (start + b)) (drop (start + b) xs)"
        by (simp only: take_add drop_drop add.commute)
      finally show ?thesis
        using "1.IH" "1.prems" True \<open>start < stop\<close>
        by (simp add: gen_slices_from_step min_absorb1 getslice_def)
    next
      case False
      then have "gen_slices_from (start + b) stop b = []"
        by (simp add: gen_slices_from_stop)
      then show ?thesis
        using False \<open>start < stop\<close> "1.prems"
        by (simp add: gen_slices_from_step min_absorb2 getslice_def)
    qed
  qed
qed

lemma gen_slices_from_length:
  "0 < b \<Longrightarrow> length (gen_slices_from start stop b) = (stop - start + b - 1) div b"
proof (induction start stop b rule: gen_slices_from.induct)
  case (1 start stop b)
  show ?case
  proof (cases "start < stop")
    case False
    then show ?thesis using "1.prems" by (simp add: gen_slices_from_stop)
  next
    case True
    show ?thesis
    proof (cases "start + b \<le> stop")
      case True
      have "(stop - start + b - 1) div b = (stop - (start + b) + b - 1 + b) div b"
        using True "1.prems" by (intro arg_cong2[where f="(div)"]) auto
      also have "\<dots> = Suc ((stop - (start + b) + b - 1) div b)"
        using "1.prems" div_add_self2[of b "stop - (start + b) + b - 1"] by simp
      finally show ?thesis
        using "1.IH" "1.prems" \<open>start < stop\<close> by (simp add: gen_slices_from_step)
    next
      case False
      then have e: "gen_slices_from (start + b) stop b = []"
        by (simp add: gen_slices_from_stop)
      have "(stop - start + b - 1) div b = 1"
        using False \<open>start < stop\<close> "1.prems"
        by (intro Euclidean_Rings.div_nat_eqI) auto
      then show ?thesis
        using e "1.prems" \<open>start < stop\<close> by (simp add: gen_slices_from_step)
    qed
  qed
qed

lemma ceil_div_ceiling:
  "ceil_div n t = \<lceil>real_of_int n / real_of_int t\<rceil>"
proof -
  have "\<lceil>real_of_int n / real_of_int t\<rceil> = - \<lfloor>real_of_int (- n) / real_of_int t\<rfloor>"
    by (simp add: ceiling_def)
  also have "\<dots> = - ((- n) div t)"
    by (simp only: floor_divide_of_int_eq)
  finally show ?thesis by (simp add: ceil_div_def)
qed

lemma ceil_div_nat:
  assumes "0 < b"
  shows "ceil_div (int n) (int b) = int ((n + b - 1) div b)"
proof -
  let ?m = "(n + b - 1) div b"
  have split: "n + b - 1 = ?m * b + (n + b - 1) mod b" by simp
  have "(n + b - 1) mod b < b" using assms by simp
  with split have le: "n \<le> ?m * b" using assms by linarith
  have "?m * b \<le> n + b - 1" by simp
  with le have lt: "?m * b - n < b" using assms by linarith
  have "(- int n) div int b = - int ?m"
  proof (rule int_div_pos_eq[where r = "int (?m * b - n)"])
    show "- int n = int b * - int ?m + int (?m * b - n)"
      using le by (simp add: of_nat_diff algebra_simps)
    show "0 \<le> int (?m * b - n)" by simp
    show "int (?m * b - n) < int b" using lt by simp
  qed
  then show ?thesis by (simp add: ceil_div_def)
qed

lemma ceil_div_nonpos:
  assumes "t < 0"
  shows "ceil_div (int n) t < 1"
proof -
  have "0 \<le> (- int n) div t"
    using assms by (simp add: neg_imp_zdiv_nonneg_iff)
  then show ?thesis by (simp add: ceil_div_def)
qed

lemma ceil_div_pos:
  assumes "1 \<le> t" and "0 < n"
  shows "1 \<le> ceil_div (int n) t"
proof -
  have "(- int n) div t < 0"
    using assms by (intro div_neg_pos_less0) simp_all
  then show ?thesis by (simp add: ceil_div_def)
qed

section \<open>The submission loop\<close>

lemma gen_slices_ok:
  "n = 0 \<or> 1 \<le> b \<Longrightarrow> gen_slices 0 n b = Inr (gen_slices_from 0 n (nat b))"
  by (auto simp: gen_slices_def gen_slices_from_stop)

lemma submit_all_ok:
  assumes "\<forall>grp\<in>set groups. cms (fst grp) \<noteq> None"
    and "\<forall>grp\<in>set groups. snd grp = [] \<or> 1 \<le> b"
  shows "submit_all cms n b groups units
         = (None, units @ concat (map (group_units cms n (nat b)) groups))"
  using assms
proof (induction groups arbitrary: units)
  case Nil
  then show ?case by simp
next
  case (Cons grp groups)
  obtain grp_id c where grp: "grp = (grp_id, c)" by (cases grp)
  from Cons.prems(1) grp obtain cm where cm: "cms grp_id = Some cm" by auto
  have sl: "gen_slices 0 (length c) b = Inr (gen_slices_from 0 (length c) (nat b))"
    using Cons.prems(2) grp by (intro gen_slices_ok) auto
  have "submit_all cms n b (grp # groups) units
        = submit_all cms n b groups (units @ group_units cms n (nat b) grp)"
    using grp cm sl by (simp add: group_units_def)
  also have "\<dots> = (None, (units @ group_units cms n (nat b) grp)
                        @ concat (map (group_units cms n (nat b)) groups))"
    using Cons.prems by (intro Cons.IH) auto
  finally show ?case by simp
qed

lemma submit_all_invalid:
  assumes "b < 1"
    and "\<forall>grp\<in>set groups. cms (fst grp) \<noteq> None"
    and "\<exists>grp\<in>set groups. snd grp \<noteq> []"
  shows "submit_all cms n b groups units = (Some ConfigurationError, units)"
  using assms(2,3)
proof (induction groups)
  case Nil
  then show ?case by simp
next
  case (Cons grp groups)
  obtain grp_id c where grp: "grp = (grp_id, c)" by (cases grp)
  from Cons.prems(1) grp obtain cm where cm: "cms grp_id = Some cm" by auto
  show ?case
  proof (cases "c = []")
    case True
    then have "\<exists>grp\<in>set groups. snd grp \<noteq> []" using Cons.prems(2) grp by auto
    then have "submit_all cms n b groups units = (Some ConfigurationError, units)"
      using Cons.prems(1) by (intro Cons.IH) simp_all
    then show ?thesis using grp cm True by (simp add: gen_slices_def)
  next
    case False
    then show ?thesis using grp cm assms(1) by (simp add: gen_slices_def)
  qed
qed

lemma submit_all_units:
  assumes "u \<in> set (snd (submit_all cms n b groups units))"
  shows "u \<in> set units \<or> (\<exists>grp\<in>set groups. cms (fst grp) = Some (cmaker u))"
  using assms
proof (induction groups arbitrary: units)
  case Nil
  then show ?case by simp
next
  case (Cons grp groups)
  obtain grp_id c where grp: "grp = (grp_id, c)" by (cases grp)
  show ?case
  proof (cases "cms grp_id")
    case None
    then show ?thesis using Cons.prems grp by simp
  next
    case (Some cm)
    show ?thesis
    proof (cases "gen_slices 0 (length c) b")
      case (Inl e)
      then show ?thesis using Cons.prems grp Some by simp
    next
      case (Inr slcs)
      let ?new = "map (\<lambda>slc. new_Input (getslice c slc) cm n) slcs"
      have "u \<in> set (snd (submit_all cms n b groups (units @ ?new)))"
        using Cons.prems grp Some Inr by simp
      then have "u \<in> set (units @ ?new) \<or> (\<exists>grp\<in>set groups. cms (fst grp) = Some (cmaker u))"
        by (rule Cons.IH)
      moreover have "cms (fst grp) = Some (cmaker u)" if "u \<in> set ?new"
        using that grp Some by (auto simp: new_Input_def)
      ultimately show ?thesis by auto
    qed
  qed
qed

section \<open>The orchestrator: results\<close>

lemma main_early:
  assumes "cc xc = None \<or> imtls_len dstore = 0 \<or> \<not> sitecol_len dstore \<le> 10"
  shows "fst (main cc calc red dstore imt1 imt2 xc seed mb sb) \<noteq> None"
    and "infos (snd (main cc calc red dstore imt1 imt2 xc seed mb sb)) = []"
    and "\<not> swmr (snd (main cc calc red dstore imt1 imt2 xc seed mb sb))"
    and "submitted (snd (main cc calc red dstore imt1 imt2 xc seed mb sb)) = []"
    and "mrd_shape (snd (main cc calc red dstore imt1 imt2 xc seed mb sb)) = None"
    and "mrd_value (snd (main cc calc red dstore imt1 imt2 xc seed mb sb)) = None"
  using assms
  by (auto simp: main_def Let_def no_effects_def split: option.splits)

lemma main_assert:
  assumes "cc xc \<noteq> None" and "imtls_len dstore \<noteq> 0" and "\<not> sitecol_len dstore \<le> 10"
  shows "fst (main cc calc red dstore imt1 imt2 xc seed mb sb)
         = Some (AssertionError ''Too many sites: %d'' (sitecol_len dstore))"
  using assms
  by (auto simp: main_def Let_def split: option.splits)

lemma main_zero_tasks:
  assumes "cc xc \<noteq> None" and "imtls_len dstore \<noteq> 0" and "sitecol_len dstore \<le> 10"
    and "concurrent_tasks dstore = 0"
  shows "fst (main cc calc red dstore imt1 imt2 xc seed mb sb) = Some ZeroDivisionError"
    and "\<not> swmr (snd (main cc calc red dstore imt1 imt2 xc seed mb sb))"
    and "submitted (snd (main cc calc red dstore imt1 imt2 xc seed mb sb)) = []"
    and "mrd_shape (snd (main cc calc red dstore imt1 imt2 xc seed mb sb)) = None"
    and "mrd_value (snd (main cc calc red dstore imt1 imt2 xc seed mb sb)) = None"
  using assms
  by (auto simp: main_def Let_def no_effects_def split: option.splits)

lemma main_loop:
  assumes "cc xc \<noteq> None" and "imtls_len dstore \<noteq> 0" and "sitecol_len dstore \<le> 10"
    and "concurrent_tasks dstore \<noteq> 0"
    and "submit_all (cmakers dstore) (sitecol_len dstore)
           (ceil_div (int (sum_list (map (\<lambda>(grp_id, c). length c) (ctx_by_grp dstore))))
              (concurrent_tasks dstore))
           (ctx_by_grp dstore) [] = (err, units)"
  shows "submitted (snd (main cc calc red dstore imt1 imt2 xc seed mb sb)) = units"
    and "err \<noteq> None \<Longrightarrow> fst (main cc calc red dstore imt1 imt2 xc seed mb sb) = err"
    and "err \<noteq> None \<Longrightarrow> mrd_shape (snd (main cc calc red dstore imt1 imt2 xc seed mb sb)) = None
           \<and> mrd_value (snd (main cc calc red dstore imt1 imt2 xc seed mb sb)) = None"
  using assms
  by (auto simp: main_def Let_def no_effects_def split: option.splits sum.splits)

lemma main_submitted:
  "submitted (snd (main cc calc red dstore imt1 imt2 xc seed mb sb)) = []
   \<or> submitted (snd (main cc calc red dstore imt1 imt2 xc seed mb sb))
     = snd (submit_all (cmakers dstore) (sitecol_len dstore)
           (ceil_div (int (sum_list (map (\<lambda>(grp_id, c). length c) (ctx_by_grp dstore))))
              (concurrent_tasks dstore))
           (ctx_by_grp dstore) [])"
  by (auto simp: main_def Let_def no_effects_def split: option.splits sum.splits prod.splits)

section \<open>Keys of a partial result\<close>

lemma dict_set_keys: "fst ` set (dict_set d k v) = insert k (fst ` set d)"
  by (induction d k v rule: dict_set.induct) auto

lemma fill_dict_keys:
  "fill_dict mrd i gs d = Inr d' \<Longrightarrow> fst ` set d' = fst ` set d \<union> set gs"
proof (induction gs arbitrary: i d)
  case Nil
  then show ?case by simp
next
  case (Cons g gs)
  then obtain v where v: "index_axis3 mrd i = Inr v"
    and rest: "fill_dict mrd (Suc i) gs (dict_set d g v) = Inr d'"
    by (auto split: sum.splits)
  from Cons.IH[OF rest] show ?case by (simp add: dict_set_keys)
qed

lemma compute_mrd_keys:
  assumes "compute_mrd calc u x i1 i2 mb sb mon = Inr d"
  shows "fst ` set d = set (gidx (cmaker u))"
proof -
  from assms obtain mrd where "fill_dict mrd 0 (gidx (cmaker u)) [] = Inr d"
    by (auto simp: compute_mrd_def split: sum.splits)
  from fill_dict_keys[OF this] show ?thesis by simp
qed

lemma units_with_index_count:
  assumes "\<forall>u\<in>set units. \<exists>d. task u = Inr d \<and> fst ` set d = set (gidx (cmaker u))"
  shows "units_with_index (map task units) g
         = length (filter (\<lambda>u. g \<in> set (gidx (cmaker u))) units)"
  using assms
proof (induction units)
  case Nil
  then show ?case by (simp add: units_with_index_def)
next
  case (Cons u units)
  then obtain d where d: "task u = Inr d" "fst ` set d = set (gidx (cmaker u))" by auto
  have "units_with_index (map task units) g
        = length (filter (\<lambda>u. g \<in> set (gidx (cmaker u))) units)"
    using Cons by simp
  then show ?case using d by (simp add: units_with_index_def)
qed

text \<open>
  C3. When the number of sites exceeds 10, \<open>main\<close> fails before anything else happens:
  the contexts are not counted, the datastore is not switched to SWMR mode, no unit is
  submitted, the dataset is neither created nor written. With a known cross
  correlation model and at least one intensity measure type, the failure is the
  assertion \<open>N \<le> 10\<close>, reported as \<open>Too many sites\<close>.
\<close>

theorem main_too_many_sites:
  assumes "10 < sitecol_len dstore"
  shows "fst (main cc calc red dstore imt1 imt2 xc seed mb sb) \<noteq> None
       \<and> infos (snd (main cc calc red dstore imt1 imt2 xc seed mb sb)) = []
       \<and> \<not> swmr (snd (main cc calc red dstore imt1 imt2 xc seed mb sb))
       \<and> submitted (snd (main cc calc red dstore imt1 imt2 xc seed mb sb)) = []
       \<and> mrd_shape (snd (main cc calc red dstore imt1 imt2 xc seed mb sb)) = None
       \<and> mrd_value (snd (main cc calc red dstore imt1 imt2 xc seed mb sb)) = None
       \<and> (cc xc \<noteq> None \<and> imtls_len dstore \<noteq> 0 \<longrightarrow>
            fst (main cc calc red dstore imt1 imt2 xc seed mb sb)
            = Some (AssertionError ''Too many sites: %d'' (sitecol_len dstore)))"
proof -
  have n: "\<not> sitecol_len dstore \<le> 10" using assms by simp
  then have e: "cc xc = None \<or> imtls_len dstore = 0 \<or> \<not> sitecol_len dstore \<le> 10"
    by simp
  show ?thesis
    using main_early[where cc = cc and xc = xc and dstore = dstore, OF e,
        of calc red imt1 imt2 seed mb sb]
      main_assert[where cc = cc and xc = xc and dstore = dstore, OF _ _ n,
        of calc red imt1 imt2 seed mb sb]
    by blast
qed

theorem main_too_many_sites_witness:
  "fst (run (scenario\<lparr>sitecol_len := 11\<rparr>)) = Some (AssertionError ''Too many sites: %d'' 11)
   \<and> submitted (snd (run (scenario\<lparr>sitecol_len := 11\<rparr>))) = []
   \<and> mrd_value (snd (run (scenario\<lparr>sitecol_len := 11\<rparr>))) = None"
proof -
  have h: "10 < sitecol_len (scenario\<lparr>sitecol_len := 11\<rparr>)" by simp
  have c: "stub_cc ''GodaAtkinson2009'' \<noteq> None" by (simp add: stub_cc_def)
  have i: "imtls_len (scenario\<lparr>sitecol_len := 11\<rparr>) \<noteq> 0" by (simp add: scenario_def)
  show ?thesis
    using main_too_many_sites[OF h, where cc = stub_cc and calc = stub_kernel
        and red = stub_reduce and ?imt1.0 = "''PGA''" and ?imt2.0 = "''SA(1.0)''"
        and xc = "''GodaAtkinson2009''" and seed = 42 and mb = "[]" and sb = "[]"] c i
    unfolding run_def by simp
qed

text \<open>
  C6 (as amended). With a known cross correlation model, at least one intensity measure
  type and at most 10 sites: when the target concurrency is 0, \<open>main\<close> fails with
  \<open>ZeroDivisionError\<close> while it computes the block size, before the datastore is
  switched to SWMR mode and before any unit is submitted; when the target is negative,
  every group has a model binding and some group has records, the slicing of the first
  non-empty group fails with \<open>ConfigurationError\<close> and no unit is submitted. In both
  cases the dataset is neither created nor written.
\<close>

theorem main_invalid_target:
  assumes "concurrent_tasks dstore < 1"
    and "cc xc \<noteq> None" and "imtls_len dstore \<noteq> 0" and "sitecol_len dstore \<le> 10"
  shows "(concurrent_tasks dstore = 0 \<longrightarrow>
            fst (main cc calc red dstore imt1 imt2 xc seed mb sb) = Some ZeroDivisionError
          \<and> \<not> swmr (snd (main cc calc red dstore imt1 imt2 xc seed mb sb))
          \<and> submitted (snd (main cc calc red dstore imt1 imt2 xc seed mb sb)) = []
          \<and> mrd_shape (snd (main cc calc red dstore imt1 imt2 xc seed mb sb)) = None
          \<and> mrd_value (snd (main cc calc red dstore imt1 imt2 xc seed mb sb)) = None)
       \<and> (concurrent_tasks dstore < 0
          \<and> (\<forall>grp\<in>set (ctx_by_grp dstore). cmakers dstore (fst grp) \<noteq> None)
          \<and> (\<exists>grp\<in>set (ctx_by_grp dstore). snd grp \<noteq> []) \<longrightarrow>
            fst (main cc calc red dstore imt1 imt2 xc seed mb sb) = Some ConfigurationError
          \<and> submitted (snd (main cc calc red dstore imt1 imt2 xc seed mb sb)) = []
          \<and> mrd_shape (snd (main cc calc red dstore imt1 imt2 xc seed mb sb)) = None
          \<and> mrd_value (snd (main cc calc red dstore imt1 imt2 xc seed mb sb)) = None)"
proof (intro conjI impI)
  assume z: "concurrent_tasks dstore = 0"
  note r = main_zero_tasks[where cc = cc and xc = xc and dstore = dstore,
      OF assms(2,3,4) z, of calc red imt1 imt2 seed mb sb]
  show "fst (main cc calc red dstore imt1 imt2 xc seed mb sb) = Some ZeroDivisionError"
    by (rule r(1))
  show "\<not> swmr (snd (main cc calc red dstore imt1 imt2 xc seed mb sb))"
    by (rule r(2))
  show "submitted (snd (main cc calc red dstore imt1 imt2 xc seed mb sb)) = []"
    by (rule r(3))
  show "mrd_shape (snd (main cc calc red dstore imt1 imt2 xc seed mb sb)) = None"
    by (rule r(4))
  show "mrd_value (snd (main cc calc red dstore imt1 imt2 xc seed mb sb)) = None"
    by (rule r(5))
next
  assume a: "concurrent_tasks dstore < 0
          \<and> (\<forall>grp\<in>set (ctx_by_grp dstore). cmakers dstore (fst grp) \<noteq> None)
          \<and> (\<exists>grp\<in>set (ctx_by_grp dstore). snd grp \<noteq> [])"
  let ?b = "ceil_div (int (sum_list (map (\<lambda>(grp_id, c). length c) (ctx_by_grp dstore))))
              (concurrent_tasks dstore)"
  have b: "?b < 1" using a by (intro ceil_div_nonpos) simp
  have nz: "concurrent_tasks dstore \<noteq> 0" using a by simp
  have s: "submit_all (cmakers dstore) (sitecol_len dstore) ?b (ctx_by_grp dstore) []
           = (Some ConfigurationError, [])"
    using a by (intro submit_all_invalid[OF b]) simp_all
  note r = main_loop[where cc = cc and xc = xc and dstore = dstore,
      OF assms(2,3,4) nz s, of calc red imt1 imt2 seed mb sb]
  show "fst (main cc calc red dstore imt1 imt2 xc seed mb sb) = Some ConfigurationError"
    using r(2) by simp
  show "submitted (snd (main cc calc red dstore imt1 imt2 xc seed mb sb)) = []"
    by (rule r(1))
  show "mrd_shape (snd (main cc calc red dstore imt1 imt2 xc seed mb sb)) = None"
    using r(3) by simp
  show "mrd_value (snd (main cc calc red dstore imt1 imt2 xc seed mb sb)) = None"
    using r(3) by simp
qed

theorem main_invalid_target_witness:
  "fst (run (scenario\<lparr>concurrent_tasks := 0\<rparr>)) = Some ZeroDivisionError
   \<and> submitted (snd (run (scenario\<lparr>concurrent_tasks := 0\<rparr>))) = []
   \<and> fst (run (scenario\<lparr>concurrent_tasks := - 2\<rparr>)) = Some ConfigurationError
   \<and> submitted (snd (run (scenario\<lparr>concurrent_tasks := - 2\<rparr>))) = []"
proof -
  have c: "stub_cc ''GodaAtkinson2009'' \<noteq> None" by (simp add: stub_cc_def)
  have z: "concurrent_tasks (scenario\<lparr>concurrent_tasks := 0\<rparr>) < 1"
    and zi: "imtls_len (scenario\<lparr>concurrent_tasks := 0\<rparr>) \<noteq> 0"
    and zs: "sitecol_len (scenario\<lparr>concurrent_tasks := 0\<rparr>) \<le> 10"
    by (simp_all add: scenario_def)
  have n: "concurrent_tasks (scenario\<lparr>concurrent_tasks := - 2\<rparr>) < 1"
    and ni: "imtls_len (scenario\<lparr>concurrent_tasks := - 2\<rparr>) \<noteq> 0"
    and ns: "sitecol_len (scenario\<lparr>concurrent_tasks := - 2\<rparr>) \<le> 10"
    by (simp_all add: scenario_def)
  have g: "concurrent_tasks (scenario\<lparr>concurrent_tasks := - 2\<rparr>) < 0
          \<and> (\<forall>grp\<in>set (ctx_by_grp (scenario\<lparr>concurrent_tasks := - 2\<rparr>)).
                cmakers (scenario\<lparr>concurrent_tasks := - 2\<rparr>) (fst grp) \<noteq> None)
          \<and> (\<exists>grp\<in>set (ctx_by_grp (scenario\<lparr>concurrent_tasks := - 2\<rparr>)). snd grp \<noteq> [])"
    by (simp add: scenario_def)
  show ?thesis
    using main_invalid_target[where cc = stub_cc and xc = "''GodaAtkinson2009''"
        and dstore = "scenario\<lparr>concurrent_tasks := 0\<rparr>", OF z c zi zs,
        of stub_kernel stub_reduce "''PGA''" "''SA(1.0)''" 42 "[]" "[]"]
      main_invalid_target[where cc = stub_cc and xc = "''GodaAtkinson2009''"
        and dstore = "scenario\<lparr>concurrent_tasks := - 2\<rparr>", OF n c ni ns,
        of stub_kernel stub_reduce "''PGA''" "''SA(1.0)''" 42 "[]" "[]"] g
    unfolding run_def by simp
qed

text \<open>
  With target concurrency 0 the failure is a \<open>ZeroDivisionError\<close>, not a
  \<open>ConfigurationError\<close>.
\<close>

theorem main_invalid_target_counterexample:
  "fst (run (scenario\<lparr>concurrent_tasks := 0\<rparr>)) \<noteq> Some ConfigurationError"
  by code_simp

lemma group_length_le_total:
  "grp \<in> set groups \<Longrightarrow> length (snd grp) \<le> sum_list (map (\<lambda>(grp_id, c). length c) groups)"
  by (induction groups) (auto simp: case_prod_beta)

lemma group_units_ctx:
  "map ctx (group_units cms n b grp)
   = map (getslice (snd grp)) (gen_slices_from 0 (length (snd grp)) b)"
  by (simp add: group_units_def new_Input_def comp_def)

text \<open>
  C5 (as amended). For every target concurrency \<open>T \<ge> 1\<close> (and a run that reaches the
  partitioning: known cross correlation model, at least one intensity measure type, at
  most 10 sites, a model binding for every group), \<open>main\<close> computes one block size
  \<open>b = ceil (n / T)\<close> from the total number \<open>n\<close> of records over all groups. The
  units it submits are, group after group, the units of the slices of that group
  alone; the slices of a group are consecutive from 0 to the group's size, non-empty
  and of length at most \<open>b\<close>; put together in order they give back the group's
  records; and their number is \<open>ceil (group size / b)\<close>.
\<close>

theorem main_partition:
  assumes "1 \<le> concurrent_tasks dstore"
    and "cc xc \<noteq> None" and "imtls_len dstore \<noteq> 0" and "sitecol_len dstore \<le> 10"
    and "\<forall>grp\<in>set (ctx_by_grp dstore). cmakers dstore (fst grp) \<noteq> None"
    and "b = nat (ceil_div (int (sum_list (map (\<lambda>(grp_id, c). length c) (ctx_by_grp dstore))))
                   (concurrent_tasks dstore))"
  shows "submitted (snd (main cc calc red dstore imt1 imt2 xc seed mb sb))
         = concat (map (group_units (cmakers dstore) (sitecol_len dstore) b) (ctx_by_grp dstore))
       \<and> (\<forall>grp\<in>set (ctx_by_grp dstore).
            chain 0 (gen_slices_from 0 (length (snd grp)) b) (length (snd grp))
          \<and> (\<forall>slc\<in>set (gen_slices_from 0 (length (snd grp)) b).
                fst slc < snd slc \<and> snd slc - fst slc \<le> b)
          \<and> concat (map ctx (group_units (cmakers dstore) (sitecol_len dstore) b grp)) = snd grp
          \<and> int (length (group_units (cmakers dstore) (sitecol_len dstore) b grp))
              = ceil_div (int (length (snd grp))) (int b))"
proof (intro conjI ballI)
  define total where "total = sum_list (map (\<lambda>(grp_id, c). length c) (ctx_by_grp dstore))"
  let ?bs = "ceil_div (int total) (concurrent_tasks dstore)"
  have bdef: "b = nat ?bs" using assms(6) by (simp add: total_def)
  have pos: "1 \<le> ?bs" if "0 < total"
    using assms(1) that by (rule ceil_div_pos)
  have empty: "snd grp = []" if "grp \<in> set (ctx_by_grp dstore)" and "total = 0" for grp
  proof -
    have "length (snd grp) \<le> total"
      unfolding total_def by (rule group_length_le_total[OF that(1)])
    then show ?thesis using that(2) by simp
  qed
  have ok: "\<forall>grp\<in>set (ctx_by_grp dstore). snd grp = [] \<or> 1 \<le> ?bs"
  proof (cases "total = 0")
    case True
    then show ?thesis using empty by blast
  next
    case False
    then have "0 < total" by (rule neq0_conv[THEN iffD1])
    then show ?thesis using pos by blast
  qed
  have nz: "concurrent_tasks dstore \<noteq> 0" using assms(1) by simp
  have s: "submit_all (cmakers dstore) (sitecol_len dstore) ?bs (ctx_by_grp dstore) []
           = (None, concat (map (group_units (cmakers dstore) (sitecol_len dstore) b)
                               (ctx_by_grp dstore)))"
    using submit_all_ok[OF assms(5) ok, of "sitecol_len dstore" "[]"] bdef by simp
  show "submitted (snd (main cc calc red dstore imt1 imt2 xc seed mb sb))
        = concat (map (group_units (cmakers dstore) (sitecol_len dstore) b) (ctx_by_grp dstore))"
    by (rule main_loop(1)[where cc = cc and xc = xc and dstore = dstore,
          OF assms(2,3,4) nz s[unfolded total_def]])
  fix grp
  assume grp: "grp \<in> set (ctx_by_grp dstore)"
  have b0: "snd grp = []" if "b = 0"
  proof (rule empty[OF grp], rule ccontr)
    assume "total \<noteq> 0"
    then have "0 < total" by (rule neq0_conv[THEN iffD1])
    then have "1 \<le> ?bs" by (rule pos)
    then show False using that bdef by simp
  qed
  show "chain 0 (gen_slices_from 0 (length (snd grp)) b) (length (snd grp))"
  proof (cases "b = 0")
    case True
    then show ?thesis using b0 by (simp add: gen_slices_from_stop)
  next
    case False
    then show ?thesis by (intro gen_slices_from_chain) simp_all
  qed
  show "fst slc < snd slc"
    if "slc \<in> set (gen_slices_from 0 (length (snd grp)) b)" for slc
    using gen_slices_from_bounds[OF that] by simp
  show "snd slc - fst slc \<le> b"
    if "slc \<in> set (gen_slices_from 0 (length (snd grp)) b)" for slc
    using gen_slices_from_bounds[OF that] by simp
  show "concat (map ctx (group_units (cmakers dstore) (sitecol_len dstore) b grp)) = snd grp"
  proof (cases "b = 0")
    case True
    then show ?thesis using b0 by (simp add: group_units_ctx gen_slices_from_stop)
  next
    case False
    then have "concat (map (getslice (snd grp)) (gen_slices_from 0 (length (snd grp)) b))
               = take (length (snd grp) - 0) (drop 0 (snd grp))"
      by (intro gen_slices_from_cover) simp_all
    then show ?thesis by (simp add: group_units_ctx)
  qed
  show "int (length (group_units (cmakers dstore) (sitecol_len dstore) b grp))
        = ceil_div (int (length (snd grp))) (int b)"
  proof (cases "b = 0")
    case True
    then show ?thesis
      using b0 by (simp add: group_units_def gen_slices_from_stop ceil_div_def)
  next
    case False
    then have "length (gen_slices_from 0 (length (snd grp)) b)
               = (length (snd grp) - 0 + b - 1) div b"
      by (intro gen_slices_from_length) simp
    then show ?thesis
      using False by (simp add: group_units_def ceil_div_nat)
  qed
qed

theorem main_partition_witness:
  "map ctx (submitted (snd (run two_groups)))
   = [[0, 1, 2], [3], [4, 5, 6], [7, 8, 9], [10, 11]]"
proof -
  have c: "stub_cc ''GodaAtkinson2009'' \<noteq> None" by (simp add: stub_cc_def)
  have h: "1 \<le> concurrent_tasks two_groups" "imtls_len two_groups \<noteq> 0"
    "sitecol_len two_groups \<le> 10"
    "\<forall>grp\<in>set (ctx_by_grp two_groups). cmakers two_groups (fst grp) \<noteq> None"
    by (simp_all add: two_groups_def)
  have b: "(3::nat) = nat (ceil_div (int (sum_list (map (\<lambda>(grp_id, c). length c)
              (ctx_by_grp two_groups)))) (concurrent_tasks two_groups))"
    by (simp add: two_groups_def ceil_div_def)
  have e: "map ctx (concat (map (group_units (cmakers two_groups) (sitecol_len two_groups) 3)
              (ctx_by_grp two_groups)))
           = [[0, 1, 2], [3], [4, 5, 6], [7, 8, 9], [10, 11]]"
    by code_simp
  show ?thesis
    using main_partition[where cc = stub_cc and xc = "''GodaAtkinson2009''"
        and dstore = two_groups and b = 3, OF h(1) c h(2) h(3) h(4) b,
        of stub_kernel stub_reduce "''PGA''" "''SA(1.0)''" 42 "[]" "[]"] e
    unfolding run_def by simp
qed

text \<open>
  The first group has 4 records and the target is 4, so its own size gives the block
  size \<open>ceil (4 / 4) = 1\<close> and 4 slices; \<open>main\<close> cuts it with the block size 3 of the
  12 records of both groups, into 2 slices of 3 and 1 records.
\<close>

theorem main_partition_counterexample:
  "ceil_div 4 4 = 1
   \<and> map (\<lambda>u. length (ctx u)) (submitted (snd (run two_groups))) = [3, 1, 3, 3, 2]
   \<and> \<not> list_all (\<lambda>u. int (length (ctx u)) \<le> ceil_div 4 4)
          (filter (\<lambda>u. cmaker u = \<lparr>gidx = [0, 1]\<rparr>) (submitted (snd (run two_groups))))"
  by code_simp

text \<open>
  C8 (as amended). In a run with a single group of 12 records and target concurrency 4
  (known cross correlation model, at least one intensity measure type, at most 10
  sites, a model binding for the group), the block size is \<open>ceil (12 / 4) = 3\<close> and
  \<open>main\<close> submits exactly 4 units, of 3 records each.
\<close>

theorem main_twelve_records:
  assumes "ctx_by_grp dstore = [(grp_id, c)]" and "length c = 12"
    and "concurrent_tasks dstore = 4"
    and "cc xc \<noteq> None" and "imtls_len dstore \<noteq> 0" and "sitecol_len dstore \<le> 10"
    and "cmakers dstore grp_id \<noteq> None"
  shows "map (\<lambda>u. length (ctx u)) (submitted (snd (main cc calc red dstore imt1 imt2 xc seed mb sb)))
         = [3, 3, 3, 3]"
proof -
  let ?bs = "ceil_div (int (sum_list (map (\<lambda>(grp_id, c). length c) (ctx_by_grp dstore))))
               (concurrent_tasks dstore)"
  have bs: "?bs = 3" using assms(1,2,3) by (simp add: ceil_div_def)
  have nz: "concurrent_tasks dstore \<noteq> 0" using assms(3) by simp
  have cm: "\<forall>grp\<in>set (ctx_by_grp dstore). cmakers dstore (fst grp) \<noteq> None"
    using assms(1,7) by simp
  have ok: "\<forall>grp\<in>set (ctx_by_grp dstore). snd grp = [] \<or> 1 \<le> ?bs"
    using bs by simp
  have sl: "gen_slices_from 0 12 3 = [(0, 3), (3, 6), (6, 9), (9, 12)]"
    by code_simp
  have u: "[] @ concat (map (group_units (cmakers dstore) (sitecol_len dstore) (nat ?bs))
                          (ctx_by_grp dstore))
           = group_units (cmakers dstore) (sitecol_len dstore) 3 (grp_id, c)"
    using bs assms(1) by simp
  have s: "submit_all (cmakers dstore) (sitecol_len dstore) ?bs (ctx_by_grp dstore) []
           = (None, group_units (cmakers dstore) (sitecol_len dstore) 3 (grp_id, c))"
    using submit_all_ok[OF cm ok, of "sitecol_len dstore" "[]"] by (simp only: u)
  have "submitted (snd (main cc calc red dstore imt1 imt2 xc seed mb sb))
        = group_units (cmakers dstore) (sitecol_len dstore) 3 (grp_id, c)"
    by (rule main_loop(1)[where cc = cc and xc = xc and dstore = dstore,
          OF assms(4,5,6) nz s])
  then show ?thesis
    using assms(2) sl by (simp add: group_units_def new_Input_def getslice_def)
qed

theorem main_twelve_records_witness:
  "map (\<lambda>u. length (ctx u)) (submitted (snd (run scenario))) = [3, 3, 3, 3]"
proof -
  have c: "stub_cc ''GodaAtkinson2009'' \<noteq> None" by (simp add: stub_cc_def)
  have h: "ctx_by_grp scenario = [(0, [0, 1, 2, 3, 4, 5, 6, 7, 8, 9, 10, 11])]"
    "length [0::nat, 1, 2, 3, 4, 5, 6, 7, 8, 9, 10, 11] = 12"
    "concurrent_tasks scenario = 4" "imtls_len scenario \<noteq> 0" "sitecol_len scenario \<le> 10"
    "cmakers scenario 0 \<noteq> None"
    by (simp_all add: scenario_def)
  show ?thesis
    using main_twelve_records[where cc = stub_cc and xc = "''GodaAtkinson2009''"
        and dstore = scenario, OF h(1) h(2) h(3) c h(4) h(5) h(6),
        of stub_kernel stub_reduce "''PGA''" "''SA(1.0)''" 42 "[]" "[]"]
    unfolding run_def by simp
qed

text \<open>The scenario does not give 3 slices of sizes 4, 4 and 4.\<close>

theorem main_twelve_records_counterexample:
  "length (submitted (snd (run scenario))) \<noteq> 3
   \<and> map (\<lambda>u. length (ctx u)) (submitted (snd (run scenario))) \<noteq> [4, 4, 4]"
  by code_simp

section \<open>Units and the groups they are cut from\<close>

lemma submit_all_stop:
  assumes "cms (fst grp) = None \<or> isl (gen_slices 0 (length (snd grp)) b)"
  shows "submit_all cms n b (grp # groups) units = (fst (submit_all cms n b (grp # groups) units), units)"
    and "fst (submit_all cms n b (grp # groups) units) \<noteq> None"
proof -
  obtain grp_id c where grp: "grp = (grp_id, c)" by (cases grp)
  show "submit_all cms n b (grp # groups) units = (fst (submit_all cms n b (grp # groups) units), units)"
    using assms grp by (auto split: option.splits sum.splits)
  show "fst (submit_all cms n b (grp # groups) units) \<noteq> None"
    using assms grp by (auto split: option.splits sum.splits)
qed

lemma submit_all_go:
  assumes "cms (fst grp) = Some cm" and "gen_slices 0 (length (snd grp)) b = Inr slcs"
  shows "submit_all cms n b (grp # groups) units
         = submit_all cms n b groups (units @ units_cut cms n b grp)"
proof -
  obtain grp_id c where grp: "grp = (grp_id, c)" by (cases grp)
  show ?thesis using assms grp by (simp add: units_cut_def)
qed

lemma submit_all_prefix: "\<exists>k. prefix_fact cms n b groups units k"
proof (induction groups arbitrary: units)
  case Nil
  have "prefix_fact cms n b [] units 0" by (simp add: prefix_fact_def)
  then show ?case ..
next
  case (Cons grp groups)
  show ?case
  proof (cases "cms (fst grp) = None \<or> isl (gen_slices 0 (length (snd grp)) b)")
    case True
    have "snd (submit_all cms n b (grp # groups) units) = units"
      using submit_all_stop(1)[where cms = cms and grp = grp and b = b, OF True, of n groups units] by (metis snd_conv)
    then have "prefix_fact cms n b (grp # groups) units 0"
      using submit_all_stop(2)[where cms = cms and grp = grp and b = b, OF True, of n groups units]
      unfolding prefix_fact_def by simp
    then show ?thesis ..
  next
    case False
    then obtain cm slcs where cm: "cms (fst grp) = Some cm"
      and sl: "gen_slices 0 (length (snd grp)) b = Inr slcs"
      by (cases "gen_slices 0 (length (snd grp)) b") auto
    note step = submit_all_go[where cms = cms and grp = grp and b = b, OF cm sl, of n groups units]
    from Cons.IH[of "units @ units_cut cms n b grp"] obtain k
      where k: "prefix_fact cms n b groups (units @ units_cut cms n b grp) k" ..
    have "prefix_fact cms n b (grp # groups) units (Suc k)"
      using k unfolding prefix_fact_def step by simp
    then show ?thesis ..
  qed
qed

lemma main_success_loop:
  assumes "fst (main cc calc red dstore imt1 imt2 xc seed mb sb) = None"
    and "s = submit_all (cmakers dstore) (sitecol_len dstore)
           (ceil_div (int (sum_list (map (\<lambda>(grp_id, c). length c) (ctx_by_grp dstore))))
              (concurrent_tasks dstore))
           (ctx_by_grp dstore) []"
  shows "fst s = None"
    and "submitted (snd (main cc calc red dstore imt1 imt2 xc seed mb sb)) = snd s"
proof -
  have early: "\<not> (cc xc = None \<or> imtls_len dstore = 0 \<or> \<not> sitecol_len dstore \<le> 10)"
    using main_early(1)[where cc = cc and xc = xc and dstore = dstore,
        of calc red imt1 imt2 seed mb sb] assms(1)
    by blast
  then have c: "cc xc \<noteq> None" and i: "imtls_len dstore \<noteq> 0"
    and n: "sitecol_len dstore \<le> 10"
    by auto
  have t: "concurrent_tasks dstore \<noteq> 0"
  proof
    assume "concurrent_tasks dstore = 0"
    from main_zero_tasks(1)[where cc = cc and xc = xc and dstore = dstore,
        OF c i n this, of calc red imt1 imt2 seed mb sb] assms(1)
    show False by simp
  qed
  obtain err units where eu: "s = (err, units)" by (cases s)
  note r = main_loop[where cc = cc and xc = xc and dstore = dstore,
      OF c i n t eu[unfolded assms(2)], of calc red imt1 imt2 seed mb sb]
  show "submitted (snd (main cc calc red dstore imt1 imt2 xc seed mb sb)) = snd s"
    using r(1) eu by simp
  show "fst s = None"
  proof (rule ccontr)
    assume "fst s \<noteq> None"
    then have "err \<noteq> None" using eu by simp
    from r(2)[OF this] assms(1) \<open>err \<noteq> None\<close> show False by simp
  qed
qed

lemma units_cut_binding:
  assumes "cms (fst grp) = Some cm" and "gen_slices 0 (length (snd grp)) b = Inr slcs"
  shows "units_cut cms n b grp = map (\<lambda>slc. new_Input (getslice (snd grp) slc) cm n) slcs"
  using assms by (simp add: units_cut_def)

lemma filter_all: "\<forall>x\<in>set xs. P x \<Longrightarrow> filter P xs = xs"
  by (induction xs) auto

lemma filter_none: "\<forall>x\<in>set xs. \<not> P x \<Longrightarrow> filter P xs = []"
  by (induction xs) auto

lemma units_cut_count:
  assumes "cms (fst grp) = Some cm" and "gen_slices 0 (length (snd grp)) b = Inr slcs"
    and "\<forall>u\<in>set (units_cut cms n b grp). \<not> isl (compute_mrd calc u x i1 i2 mb sb mon)"
  shows "units_with_index (map (\<lambda>u. compute_mrd calc u x i1 i2 mb sb mon) (units_cut cms n b grp)) g
         = (if g \<in> set (gidx cm) then length slcs else 0)"
proof -
  let ?units = "units_cut cms n b grp"
  let ?task = "\<lambda>u. compute_mrd calc u x i1 i2 mb sb mon"
  have eq: "?units = map (\<lambda>slc. new_Input (getslice (snd grp) slc) cm n) slcs"
    by (rule units_cut_binding[where cms = cms and grp = grp, OF assms(1,2)])
  have cm: "\<forall>u\<in>set ?units. cmaker u = cm"
    unfolding eq by (simp add: new_Input_def)
  have keys: "\<forall>u\<in>set ?units. \<exists>d. ?task u = Inr d \<and> fst ` set d = set (gidx (cmaker u))"
  proof
    fix u
    assume "u \<in> set ?units"
    then have "\<not> isl (?task u)" using assms(3) by blast
    then obtain d where d: "?task u = Inr d" by (cases "?task u") auto
    from compute_mrd_keys[OF d] d
    show "\<exists>d. ?task u = Inr d \<and> fst ` set d = set (gidx (cmaker u))" by blast
  qed
  have len: "length ?units = length slcs" unfolding eq by simp
  have "units_with_index (map ?task ?units) g
        = length (filter (\<lambda>u. g \<in> set (gidx (cmaker u))) ?units)"
    by (rule units_with_index_count[OF keys])
  also have "\<dots> = (if g \<in> set (gidx cm) then length slcs else 0)"
  proof (cases "g \<in> set (gidx cm)")
    case True
    then have "\<forall>u\<in>set ?units. g \<in> set (gidx (cmaker u))" using cm by simp
    then have "filter (\<lambda>u. g \<in> set (gidx (cmaker u))) ?units = ?units" by (rule filter_all)
    then show ?thesis using True len by simp
  next
    case False
    then have "\<forall>u\<in>set ?units. \<not> g \<in> set (gidx (cmaker u))" using cm by simp
    then have "filter (\<lambda>u. g \<in> set (gidx (cmaker u))) ?units = []" by (rule filter_none)
    then show ?thesis using False by simp
  qed
  finally show ?thesis .
qed

lemma units_cut_keys:
  assumes "cms (fst grp) = Some cm" and "gen_slices 0 (length (snd grp)) b = Inr slcs"
    and "u \<in> set (units_cut cms n b grp)"
    and "compute_mrd calc u x i1 i2 mb sb mon = Inr d"
  shows "fst ` set d = set (gidx cm)"
proof -
  have "cmaker u = cm"
    using assms(3)
    unfolding units_cut_binding[where cms = cms and grp = grp, OF assms(1,2)]
    by (auto simp: new_Input_def)
  then show ?thesis using compute_mrd_keys[OF assms(4)] by simp
qed

text \<open>
  C9 (as amended). For every run, with \<open>bs\<close> the block size that \<open>main\<close> computes: the
  units submitted are, group after group in the order of the groups, the units cut
  from the first \<open>k\<close> groups (from all groups when the run succeeds). The units cut
  from a group are one for each slice of the group, each holding that slice of the
  group's own records and the group's own model binding; the keys of the partial
  result of each of them are exactly the sub-model indices of that binding; and, when
  all of them are computed, a sub-model index of the binding is a key of the partial
  results of as many units as the group has slices (and an index outside the binding
  of none of them). Over the whole run, when every submitted unit is computed, an
  index is a key of the partial results of as many units as have a binding that lists
  it.
\<close>

theorem partial_result_keys:
  fixes dstore :: "'c dstore"
  assumes "bs = ceil_div (int (sum_list (map (\<lambda>(grp_id, c). length c) (ctx_by_grp dstore))))
                  (concurrent_tasks dstore)"
  shows "(\<exists>k\<le>length (ctx_by_grp dstore).
            submitted (snd (main cc calc red dstore imt1 imt2 xc seed mb sb))
            = concat (map (units_cut (cmakers dstore) (sitecol_len dstore) bs)
                          (take k (ctx_by_grp dstore))))
       \<and> (fst (main cc calc red dstore imt1 imt2 xc seed mb sb) = None \<longrightarrow>
            submitted (snd (main cc calc red dstore imt1 imt2 xc seed mb sb))
            = concat (map (units_cut (cmakers dstore) (sitecol_len dstore) bs)
                          (ctx_by_grp dstore)))
       \<and> (\<forall>(grp :: nat \<times> 'c list) cm slcs.
            cmakers dstore (fst grp) = Some cm \<and> gen_slices 0 (length (snd grp)) bs = Inr slcs \<longrightarrow>
              units_cut (cmakers dstore) (sitecol_len dstore) bs grp
                = map (\<lambda>slc. new_Input (getslice (snd grp) slc) cm (sitecol_len dstore)) slcs
            \<and> (\<forall>u\<in>set (units_cut (cmakers dstore) (sitecol_len dstore) bs grp).
                  \<forall>d. compute_mrd calc u x imt1 imt2 mb sb mon = Inr d
                       \<longrightarrow> fst ` set d = set (gidx cm))
            \<and> ((\<forall>u\<in>set (units_cut (cmakers dstore) (sitecol_len dstore) bs grp).
                    \<not> isl (compute_mrd calc u x imt1 imt2 mb sb mon)) \<longrightarrow>
                  units_with_index
                    (map (\<lambda>u. compute_mrd calc u x imt1 imt2 mb sb mon)
                         (units_cut (cmakers dstore) (sitecol_len dstore) bs grp)) g
                  = (if g \<in> set (gidx cm) then length slcs else 0)))
       \<and> ((\<forall>u\<in>set (submitted (snd (main cc calc red dstore imt1 imt2 xc seed mb sb))).
               \<not> isl (compute_mrd calc u x imt1 imt2 mb sb mon)) \<longrightarrow>
            units_with_index
              (map (\<lambda>u. compute_mrd calc u x imt1 imt2 mb sb mon)
                   (submitted (snd (main cc calc red dstore imt1 imt2 xc seed mb sb)))) g
            = length (filter (\<lambda>u. g \<in> set (gidx (cmaker u)))
                       (submitted (snd (main cc calc red dstore imt1 imt2 xc seed mb sb)))))"
proof (intro conjI)
  let ?m = "main cc calc red dstore imt1 imt2 xc seed mb sb"
  let ?cut = "units_cut (cmakers dstore) (sitecol_len dstore) bs"
  let ?s = "submit_all (cmakers dstore) (sitecol_len dstore) bs (ctx_by_grp dstore) []"
  obtain k where k: "prefix_fact (cmakers dstore) (sitecol_len dstore) bs (ctx_by_grp dstore) [] k"
    using submit_all_prefix by blast
  then have kl: "k \<le> length (ctx_by_grp dstore)"
    and ks: "snd ?s = concat (map ?cut (take k (ctx_by_grp dstore)))"
    and kf: "fst ?s = None \<longrightarrow> k = length (ctx_by_grp dstore)"
    by (simp_all add: prefix_fact_def)
  show "\<exists>k\<le>length (ctx_by_grp dstore).
          submitted (snd ?m) = concat (map ?cut (take k (ctx_by_grp dstore)))"
  proof (cases "submitted (snd ?m) = []")
    case True
    then have "0 \<le> length (ctx_by_grp dstore)
               \<and> submitted (snd ?m) = concat (map ?cut (take 0 (ctx_by_grp dstore)))"
      by simp
    then show ?thesis by blast
  next
    case False
    then have "submitted (snd ?m) = snd ?s"
      using main_submitted[of cc calc red dstore imt1 imt2 xc seed mb sb]
      unfolding assms by blast
    then show ?thesis using kl ks by auto
  qed
  show "fst ?m = None \<longrightarrow> submitted (snd ?m) = concat (map ?cut (ctx_by_grp dstore))"
  proof
    assume ok: "fst ?m = None"
    have s: "?s = submit_all (cmakers dstore) (sitecol_len dstore)
           (ceil_div (int (sum_list (map (\<lambda>(grp_id, c). length c) (ctx_by_grp dstore))))
              (concurrent_tasks dstore))
           (ctx_by_grp dstore) []"
      unfolding assms ..
    from main_success_loop[OF ok s] kf ks
    show "submitted (snd ?m) = concat (map ?cut (ctx_by_grp dstore))"
      by simp
  qed
  show "\<forall>(grp :: nat \<times> 'c list) cm slcs.
          cmakers dstore (fst grp) = Some cm \<and> gen_slices 0 (length (snd grp)) bs = Inr slcs \<longrightarrow>
            ?cut grp = map (\<lambda>slc. new_Input (getslice (snd grp) slc) cm (sitecol_len dstore)) slcs
          \<and> (\<forall>u\<in>set (?cut grp).
                \<forall>d. compute_mrd calc u x imt1 imt2 mb sb mon = Inr d
                     \<longrightarrow> fst ` set d = set (gidx cm))
          \<and> ((\<forall>u\<in>set (?cut grp). \<not> isl (compute_mrd calc u x imt1 imt2 mb sb mon)) \<longrightarrow>
                units_with_index
                  (map (\<lambda>u. compute_mrd calc u x imt1 imt2 mb sb mon) (?cut grp)) g
                = (if g \<in> set (gidx cm) then length slcs else 0))"
  proof (intro allI impI, elim conjE, intro conjI ballI allI impI)
    fix grp :: "nat \<times> 'c list" and cm slcs
    assume cm: "cmakers dstore (fst grp) = Some cm"
      and sl: "gen_slices 0 (length (snd grp)) bs = Inr slcs"
    show "?cut grp = map (\<lambda>slc. new_Input (getslice (snd grp) slc) cm (sitecol_len dstore)) slcs"
      by (rule units_cut_binding[where cms = "cmakers dstore" and grp = grp, OF cm sl])
    show "fst ` set d = set (gidx cm)"
      if "u \<in> set (?cut grp)" and "compute_mrd calc u x imt1 imt2 mb sb mon = Inr d" for u d
      by (rule units_cut_keys[where cms = "cmakers dstore" and grp = grp, OF cm sl that])
    show "units_with_index
            (map (\<lambda>u. compute_mrd calc u x imt1 imt2 mb sb mon) (?cut grp)) g
          = (if g \<in> set (gidx cm) then length slcs else 0)"
      if "\<forall>u\<in>set (?cut grp). \<not> isl (compute_mrd calc u x imt1 imt2 mb sb mon)"
      by (rule units_cut_count[where cms = "cmakers dstore" and grp = grp, OF cm sl that])
  qed
  show "(\<forall>u\<in>set (submitted (snd ?m)). \<not> isl (compute_mrd calc u x imt1 imt2 mb sb mon)) \<longrightarrow>
          units_with_index
            (map (\<lambda>u. compute_mrd calc u x imt1 imt2 mb sb mon) (submitted (snd ?m))) g
          = length (filter (\<lambda>u. g \<in> set (gidx (cmaker u))) (submitted (snd ?m)))"
  proof
    assume all: "\<forall>u\<in>set (submitted (snd ?m)). \<not> isl (compute_mrd calc u x imt1 imt2 mb sb mon)"
    have keys: "\<forall>u\<in>set (submitted (snd ?m)).
                  \<exists>d. compute_mrd calc u x imt1 imt2 mb sb mon = Inr d
                      \<and> fst ` set d = set (gidx (cmaker u))"
    proof
      fix u
      assume "u \<in> set (submitted (snd ?m))"
      then have "\<not> isl (compute_mrd calc u x imt1 imt2 mb sb mon)" using all by blast
      then obtain d where d: "compute_mrd calc u x imt1 imt2 mb sb mon = Inr d"
        by (cases "compute_mrd calc u x imt1 imt2 mb sb mon") auto
      from compute_mrd_keys[OF d] d
      show "\<exists>d. compute_mrd calc u x imt1 imt2 mb sb mon = Inr d
                \<and> fst ` set d = set (gidx (cmaker u))"
        by blast
    qed
    show "units_with_index
            (map (\<lambda>u. compute_mrd calc u x imt1 imt2 mb sb mon) (submitted (snd ?m))) g
          = length (filter (\<lambda>u. g \<in> set (gidx (cmaker u))) (submitted (snd ?m)))"
      by (rule units_with_index_count[OF keys])
  qed
qed

theorem partial_result_keys_witness:
  "map (\<lambda>u. (ctx u, gidx (cmaker u))) (submitted (snd (run two_groups)))
   = [([0, 1, 2], [0, 1]), ([3], [0, 1]), ([4, 5, 6], [2]), ([7, 8, 9], [2]), ([10, 11], [2])]
   \<and> units_with_index
        (map (\<lambda>u. compute_mrd stub_kernel u () ''PGA'' ''SA(1.0)'' [] [] ())
             (units_cut (cmakers two_groups) (sitecol_len two_groups) 3
                (1, [4, 5, 6, 7, 8, 9, 10, 11]))) 2
     = 3"
proof -
  let ?cut = "units_cut (cmakers two_groups) (sitecol_len two_groups) 3"
  let ?task = "\<lambda>u. compute_mrd stub_kernel u () ''PGA'' ''SA(1.0)'' [] [] ()"
  let ?grp = "(1::nat, [4, 5, 6, 7, 8, 9, 10, 11::nat])"
  have b: "(3::int) = ceil_div (int (sum_list (map (\<lambda>(grp_id, c). length c)
              (ctx_by_grp two_groups)))) (concurrent_tasks two_groups)"
    by (simp add: two_groups_def ceil_div_def)
  note T = partial_result_keys[where dstore = two_groups and bs = 3 and cc = stub_cc
      and calc = stub_kernel and red = stub_reduce and ?imt1.0 = "''PGA''"
      and ?imt2.0 = "''SA(1.0)''" and xc = "''GodaAtkinson2009''" and seed = 42
      and mb = "[]" and sb = "[]" and x = "()" and mon = "()" and g = 2, OF b]
  have ok: "fst (main stub_cc stub_kernel stub_reduce two_groups ''PGA'' ''SA(1.0)''
                  ''GodaAtkinson2009'' 42 [] []) = None"
    by code_simp
  have sub: "submitted (snd (run two_groups)) = concat (map ?cut (ctx_by_grp two_groups))"
    unfolding run_def using T ok by blast
  have e: "map (\<lambda>u. (ctx u, gidx (cmaker u))) (concat (map ?cut (ctx_by_grp two_groups)))
     = [([0, 1, 2], [0, 1]), ([3], [0, 1]), ([4, 5, 6], [2]), ([7, 8, 9], [2]), ([10, 11], [2])]"
    by code_simp
  have cm: "cmakers two_groups (fst ?grp) = Some \<lparr>gidx = [2]\<rparr>"
    by (simp add: two_groups_def)
  have sl: "gen_slices 0 (length (snd ?grp)) 3 = Inr [(0, 3), (3, 6), (6, 8)]"
    by code_simp
  have all: "\<forall>u\<in>set (?cut ?grp). \<not> isl (?task u)"
    by code_simp
  have "units_with_index (map ?task (?cut ?grp)) 2
        = (if 2 \<in> set (gidx \<lparr>gidx = [2]\<rparr>) then length [(0::nat, 3::nat), (3, 6), (6, 8)] else 0)"
    using T cm sl all by blast
  then have n: "units_with_index (map ?task (?cut ?grp)) 2 = 3" by simp
  show ?thesis using sub e n by (simp only: simp_thms)
qed

text \<open>
  In the scenario the sub-model indices 0 and 1 are keys of the partial results of all
  four units.
\<close>

theorem partial_result_keys_counterexample:
  "\<not> each_index_in_one_unit (partials_of (submitted (snd (run scenario))))"
  by code_simp

end
